theory Spec2Isabelle
  imports Complex_Main "HOL-Library.Sublist" "HOL-Library.AList"
begin

section \<open>Systematics breakdown: run_fits.py and syst_breakdown.py\<close>

text \<open>
  Conventions of the embedding.
  \<^item> A Python \<open>str\<close> is a \<open>string\<close>; a character stands for a code point below 256.
  \<^item> A Python \<open>float\<close> is a \<open>real\<close>: rounding, overflow, infinities and NaN are not
    modelled.
  \<^item> A Python \<open>dict\<close> is an association list in insertion order whose keys are
    distinct; \<open>d[k] = v\<close> is \<open>AList.update\<close> (a new key goes last, an old key keeps
    its place), \<open>d[k]\<close> is \<open>dict_get\<close> and raises \<open>KeyError\<close> on a missing key.
  \<^item> \<open>sys.exit(n)\<close> and uncaught exceptions are values of \<open>error\<close>; a function that
    can raise returns \<open>error + 'a\<close>.
  \<^item> The \<open>logging\<close> calls are a list of \<open>log_event\<close>s, in the order they are made,
    returned beside the result; an event carries the arguments of the format string.
\<close>

subsection \<open>Errors, log events, dictionaries\<close>

datatype error =
    SystemExit int
  | KeyError string
  | IndexError
  | ValueError
  | ZeroDivisionError

datatype log_event =
    WarnNoInfoNP string            \<comment> \<open>No information available for NP with name ...\<close>
  | WarnMissingO                   \<comment> \<open>-o argument is missing, adding one by default.\<close>
  | ErrOLast                       \<comment> \<open>-o argument must be followed by the full path ...\<close>
  | ErrOExt                        \<comment> \<open>-o argument must have .root extension.\<close>
  | WarnMissingP                   \<comment> \<open>-p argument is missing, adding one by default.\<close>
  | ErrPLast                       \<comment> \<open>-p argument must be followed by a ... list of pois\<close>
  | ErrPFormat                     \<comment> \<open>-p argument not correctly formatted.\<close>
  | WarnAltLower real string real  \<comment> \<open>Alternative lower error e for POI n is larger than ...\<close>
  | WarnAltUpper real string real  \<comment> \<open>Alternative upper error e for POI n is larger than ...\<close>
  | ErrNoPOIs string               \<comment> \<open>No matching POIs found in file ...\<close>
  | WarnDiffer string string real  \<comment> \<open>p - Base and g fitted values differ for more than t sigma.\<close>

type_synonym ('k, 'v) dict = "('k \<times> 'v) list"

definition dict_get :: "(string, 'v) dict \<Rightarrow> string \<Rightarrow> error + 'v" where
  "dict_get d k = (case map_of d k of None \<Rightarrow> Inl (KeyError k) | Some v \<Rightarrow> Inr v)"

definition dict_keys :: "('k, 'v) dict \<Rightarrow> 'k list" where
  "dict_keys d = map fst d"

definition dict_wf :: "('k, 'v) dict \<Rightarrow> bool" where
  "dict_wf d = distinct (map fst d)"

subsection \<open>The string operations of Python the code uses\<close>

text \<open>\<open>sep.join(xs)\<close>.\<close>

fun join :: "string \<Rightarrow> string list \<Rightarrow> string" where
  "join sep [] = []"
| "join sep [x] = x"
| "join sep (x # y # ys) = x @ sep @ join sep (y # ys)"

text \<open>\<open>a in b\<close> on strings: \<open>a\<close> occurs in \<open>b\<close> as a contiguous substring.\<close>

fun str_contains :: "string \<Rightarrow> string \<Rightarrow> bool" where
  "str_contains a [] = (a = [])"
| "str_contains a (c # cs) = (prefix a (c # cs) \<or> str_contains a cs)"

text \<open>
  \<open>str.split()\<close> with no argument: the maximal runs of characters that are not
  whitespace. The whitespace code points below 256 are the ones \<open>str.isspace\<close> accepts.
\<close>

definition whitespace :: "char list" where
  "whitespace = [CHR 0x09, CHR 0x0A, CHR 0x0B, CHR 0x0C, CHR 0x0D, CHR 0x1C, CHR 0x1D,
                 CHR 0x1E, CHR 0x1F, CHR 0x20, CHR 0x85, CHR 0xA0]"

definition is_space :: "char \<Rightarrow> bool" where
  "is_space c = (c \<in> set whitespace)"

fun split_ws :: "string \<Rightarrow> string \<Rightarrow> string list" where
  "split_ws cur [] = (if cur = [] then [] else [rev cur])"
| "split_ws cur (c # cs) =
     (if is_space c then (if cur = [] then split_ws [] cs else rev cur # split_ws [] cs)
      else split_ws (c # cur) cs)"

definition py_split :: "string \<Rightarrow> string list" where
  "py_split s = split_ws [] s"

definition no_space :: "string \<Rightarrow> bool" where
  "no_space s = (\<forall>c \<in> set s. \<not> is_space c)"

text \<open>\<open>xs.index(x)\<close>, used by the code only after \<open>x in xs\<close> has been checked.\<close>

fun list_index :: "'a \<Rightarrow> 'a list \<Rightarrow> nat" where
  "list_index x [] = 0"
| "list_index x (y # ys) = (if x = y then 0 else Suc (list_index x ys))"

text \<open>\<open>s.rfind(c)\<close> for a single character: the last index of \<open>c\<close>, or \<open>-1\<close>.\<close>

fun rfind_from :: "char \<Rightarrow> string \<Rightarrow> int \<Rightarrow> int \<Rightarrow> int" where
  "rfind_from c [] i found = found"
| "rfind_from c (x # xs) i found = rfind_from c xs (i + 1) (if x = c then i else found)"

definition rfind :: "char \<Rightarrow> string \<Rightarrow> int" where
  "rfind c s = rfind_from c s 0 (- 1)"

text \<open>
  \<open>os.path.splitext\<close> on POSIX (\<open>genericpath._splitext(p, '/', None, '.')\<close>): the
  extension starts at the last dot, if that dot comes after the last slash and some
  character between them is not a dot; otherwise the extension is empty.
\<close>

function splitext_loop :: "string \<Rightarrow> nat \<Rightarrow> nat \<Rightarrow> (string \<times> string) option" where
  "splitext_loop p filenameIndex dotIndex =
     (if filenameIndex < dotIndex then
        (if p ! filenameIndex \<noteq> CHR ''.'' then Some (take dotIndex p, drop dotIndex p)
         else splitext_loop p (filenameIndex + 1) dotIndex)
      else None)"
  by pat_completeness auto
termination
  by (relation "measure (\<lambda>(p, filenameIndex, dotIndex). dotIndex - filenameIndex)") auto

declare splitext_loop.simps [simp del]

definition splitext :: "string \<Rightarrow> string \<times> string" where
  "splitext p =
     (let sepIndex = rfind CHR ''/'' p; dotIndex = rfind CHR ''.'' p in
      if dotIndex > sepIndex then
        (case splitext_loop p (nat (sepIndex + 1)) (nat dotIndex) of
           Some r \<Rightarrow> r
         | None \<Rightarrow> (p, []))
      else (p, []))"

subsection \<open>run\_fits.py: fixed\_systs\<close>

text \<open>
  \<open>fixed_systs(systs, info)\<close>. The snapshot \<open>info\<close> maps a parameter name to its fitted
  value; \<open>fmt\<close> is what \<open>'{}'.format\<close> makes of a value (Python's rendering of a float
  is not modelled, so it is a parameter). The loop is \<open>fixed_systs_loop\<close>: it
  carries \<open>syst_list\<close> and the log.
\<close>

definition matched_keys :: "string \<Rightarrow> (string, 'v) dict \<Rightarrow> string list" where
  "matched_keys syst info = filter (\<lambda>key. str_contains syst key) (dict_keys info)"

fun format_keys :: "('v \<Rightarrow> string) \<Rightarrow> (string, 'v) dict \<Rightarrow> string list \<Rightarrow> error + string list" where
  "format_keys fmt info [] = Inr []"
| "format_keys fmt info (key # keys) =
     (case dict_get info key of
        Inl e \<Rightarrow> Inl e
      | Inr v \<Rightarrow>
          (case format_keys fmt info keys of
             Inl e \<Rightarrow> Inl e
           | Inr rest \<Rightarrow> Inr ((key @ ''='' @ fmt v) # rest)))"

fun fixed_systs_loop ::
  "('v \<Rightarrow> string) \<Rightarrow> (string, 'v) dict \<Rightarrow> string list \<Rightarrow> string list \<Rightarrow> log_event list
    \<Rightarrow> log_event list \<times> (error + string list)" where
  "fixed_systs_loop fmt info [] syst_list lg = (lg, Inr syst_list)"
| "fixed_systs_loop fmt info (syst # systs) syst_list lg =
     (let mk = matched_keys syst info in
      if mk = [] then fixed_systs_loop fmt info systs syst_list (lg @ [WarnNoInfoNP syst])
      else
        (case format_keys fmt info mk of
           Inl e \<Rightarrow> (lg, Inl e)
         | Inr new \<Rightarrow> fixed_systs_loop fmt info systs (syst_list @ new) lg))"

definition fixed_systs ::
  "('v \<Rightarrow> string) \<Rightarrow> string list \<Rightarrow> (string, 'v) dict \<Rightarrow> log_event list \<times> (error + string)" where
  "fixed_systs fmt systs info =
     (case fixed_systs_loop fmt info systs [] [] of
        (lg, Inl e) \<Rightarrow> (lg, Inl e)
      | (lg, Inr syst_list) \<Rightarrow> (lg, Inr (join '','' syst_list)))"

text \<open>
  The fixed-parameter string as the specification words it: for each substring of the
  group in order, every parameter of the snapshot whose name contains it, as
  \<open>name=value\<close>; all of them joined with commas. A substring that matches no name gives
  nothing and is warned about.
\<close>

definition fixed_systs_spec :: "('v \<Rightarrow> string) \<Rightarrow> string list \<Rightarrow> (string, 'v) dict \<Rightarrow> string" where
  "fixed_systs_spec fmt systs info =
     join '',''
       (concat (map (\<lambda>syst. map (\<lambda>(name, v). name @ ''='' @ fmt v)
                              (filter (\<lambda>(name, v). sublist syst name) info)) systs))"

definition fixed_systs_warnings :: "string list \<Rightarrow> (string, 'v) dict \<Rightarrow> log_event list" where
  "fixed_systs_warnings systs info =
     map WarnNoInfoNP (filter (\<lambda>syst. \<not> list_ex (\<lambda>(name, v). sublist syst name) info) systs)"

subsection \<open>run\_fits.py: edit\_cmd and generate\_alt\_cmds\<close>

text \<open>
  \<open>edit_cmd(cmd, group_name, fixed)\<close> splits the command, edits the token list and joins
  it again. \<open>handle_o\<close> and \<open>handle_p\<close> are its two blocks (``Handle -o option'',
  ``Handle -p option''); \<open>edit_split_cmd\<close> is what happens to \<open>split_cmd\<close> between the
  split and the join.
\<close>

definition handle_o :: "string list \<Rightarrow> string \<Rightarrow> log_event list \<times> (error + string list)" where
  "handle_o split_cmd group_name =
     (if ''-o'' \<notin> set split_cmd then
        ([WarnMissingO], Inr (split_cmd @ [''-o '' @ group_name @ ''.root'']))
      else
        (let idx = list_index ''-o'' split_cmd in
         if idx = length split_cmd - 1 then ([ErrOLast], Inl (SystemExit 1))
         else
           (let (outname, extension) = splitext (split_cmd ! (idx + 1)) in
            if extension \<noteq> ''.root'' then ([ErrOExt], Inl (SystemExit 1))
            else ([], Inr (split_cmd[idx + 1 := (outname @ ''_'' @ group_name) @ extension])))))"

definition handle_p :: "string list \<Rightarrow> string \<Rightarrow> log_event list \<times> (error + string list)" where
  "handle_p split_cmd fixed =
     (if ''-p'' \<notin> set split_cmd then
        ([WarnMissingP], Inr (split_cmd @ [''-p '' @ fixed]))
      else
        (let idx = list_index ''-p'' split_cmd in
         if idx = length split_cmd - 1 then ([ErrPLast], Inl (SystemExit 1))
         else
           (let pois = split_cmd ! (idx + 1) in
            if CHR ''='' \<notin> set pois then ([ErrPFormat], Inl (SystemExit 1))
            else ([], Inr (split_cmd[idx + 1 := pois @ '','' @ fixed])))))"

definition edit_split_cmd ::
  "string list \<Rightarrow> string \<Rightarrow> string \<Rightarrow> log_event list \<times> (error + string list)" where
  "edit_split_cmd split_cmd group_name fixed =
     (case handle_o split_cmd group_name of
        (lg, Inl e) \<Rightarrow> (lg, Inl e)
      | (lg, Inr split_cmd1) \<Rightarrow>
          (case handle_p split_cmd1 fixed of
             (lg', Inl e) \<Rightarrow> (lg @ lg', Inl e)
           | (lg', Inr split_cmd2) \<Rightarrow> (lg @ lg', Inr split_cmd2)))"

definition edit_cmd :: "string \<Rightarrow> string \<Rightarrow> string \<Rightarrow> log_event list \<times> (error + string)" where
  "edit_cmd cmd group_name fixed =
     (case edit_split_cmd (py_split cmd) group_name fixed of
        (lg, Inl e) \<Rightarrow> (lg, Inl e)
      | (lg, Inr split_cmd) \<Rightarrow> (lg, Inr (join '' '' split_cmd)))"

text \<open>
  \<open>generate_alt_cmds(cmd, groups, NPinfo)\<close>: one edited command for each group, in the
  order of the groups; the first exit or exception ends the loop.
\<close>

fun generate_alt_cmds_loop ::
  "('v \<Rightarrow> string) \<Rightarrow> string \<Rightarrow> (string, 'v) dict \<Rightarrow> (string, string list) dict \<Rightarrow> string list
    \<Rightarrow> log_event list \<Rightarrow> log_event list \<times> (error + string list)" where
  "generate_alt_cmds_loop fmt cmd NPinfo [] alt_cmds lg = (lg, Inr alt_cmds)"
| "generate_alt_cmds_loop fmt cmd NPinfo ((gname, gsysts) # groups) alt_cmds lg =
     (case fixed_systs fmt gsysts NPinfo of
        (lg1, Inl e) \<Rightarrow> (lg @ lg1, Inl e)
      | (lg1, Inr fixed_str) \<Rightarrow>
          (case edit_cmd cmd gname fixed_str of
             (lg2, Inl e) \<Rightarrow> (lg @ lg1 @ lg2, Inl e)
           | (lg2, Inr gcmd) \<Rightarrow>
               generate_alt_cmds_loop fmt cmd NPinfo groups (alt_cmds @ [gcmd]) (lg @ lg1 @ lg2)))"

definition generate_alt_cmds ::
  "('v \<Rightarrow> string) \<Rightarrow> string \<Rightarrow> (string, string list) dict \<Rightarrow> (string, 'v) dict
    \<Rightarrow> log_event list \<times> (error + string list)" where
  "generate_alt_cmds fmt cmd groups NPinfo = generate_alt_cmds_loop fmt cmd NPinfo groups [] []"

text \<open>
  The value of an option in a token list, as \<open>edit_cmd\<close> reads it: the token after the
  first occurrence of the flag, if there is one.
\<close>

definition flag_value :: "string \<Rightarrow> string list \<Rightarrow> string option" where
  "flag_value flag toks =
     (if flag \<in> set toks \<and> list_index flag toks \<noteq> length toks - 1
      then Some (toks ! (list_index flag toks + 1)) else None)"

text \<open>
  The malformations of a baseline command, read off its own tokens: a flag that is the
  last token, a \<open>-o\<close> value whose extension is not \<open>.root\<close>, a \<open>-p\<close> value with no
  \<open>=\<close>.
\<close>

definition flag_last :: "string \<Rightarrow> string list \<Rightarrow> bool" where
  "flag_last flag toks = (flag \<in> set toks \<and> list_index flag toks = length toks - 1)"

definition o_lacks_ext :: "string list \<Rightarrow> bool" where
  "o_lacks_ext toks =
     (case flag_value ''-o'' toks of None \<Rightarrow> False | Some v \<Rightarrow> snd (splitext v) \<noteq> ''.root'')"

definition p_lacks_eq :: "string list \<Rightarrow> bool" where
  "p_lacks_eq toks =
     (case flag_value ''-p'' toks of None \<Rightarrow> False | Some pv \<Rightarrow> CHR ''='' \<notin> set pv)"

definition malformed :: "string list \<Rightarrow> bool" where
  "malformed toks =
     (o_lacks_ext toks \<or> p_lacks_eq toks \<or> flag_last ''-o'' toks \<or> flag_last ''-p'' toks)"

subsection \<open>syst\_breakdown.py: the POI class\<close>

text \<open>
  \<open>class POI\<close>: a name, a value and the pair \<open>err = (err_low, err_high)\<close>. The field
  names carry the prefix \<open>poi_\<close>. \<open>sub_quad_errs\<close> returns its two warnings, if any,
  beside the pair of results.
\<close>

record POI =
  poi_name :: string
  poi_value :: real
  poi_err :: "real \<times> real"

definition sub_quad_errs :: "POI \<Rightarrow> POI \<Rightarrow> log_event list \<times> (real \<times> real)" where
  "sub_quad_errs self poi =
     (let (res_low, lg_low) =
            (if (fst (poi_err self))\<^sup>2 - (fst (poi_err poi))\<^sup>2 \<ge> 0
             then (sqrt ((fst (poi_err self))\<^sup>2 - (fst (poi_err poi))\<^sup>2), [])
             else (0, [WarnAltLower (fst (poi_err poi)) (poi_name self) (fst (poi_err self))]));
          (res_high, lg_high) =
            (if (snd (poi_err self))\<^sup>2 - (snd (poi_err poi))\<^sup>2 \<ge> 0
             then (sqrt ((snd (poi_err self))\<^sup>2 - (snd (poi_err poi))\<^sup>2), [])
             else (0, [WarnAltUpper (snd (poi_err poi)) (poi_name self) (snd (poi_err self))]))
      in (lg_low @ lg_high, (res_low, res_high)))"

subsection \<open>syst\_breakdown.py: get\_fnames\<close>

text \<open>
  \<open>s.split(sep)\<close> with a separator: the pieces between the occurrences of \<open>sep\<close>, found
  from the left and not overlapping; an empty separator raises \<open>ValueError\<close>.
\<close>

function split_on :: "string \<Rightarrow> string \<Rightarrow> string \<Rightarrow> string list" where
  "split_on sep cur [] = [rev cur]"
| "split_on sep cur (c # cs) =
     (if sep \<noteq> [] \<and> prefix sep (c # cs)
      then rev cur # split_on sep [] (drop (length sep) (c # cs))
      else split_on sep (c # cur) cs)"
  by pat_completeness auto
termination
  by (relation "measure (\<lambda>(sep, cur, s). length s)") (auto simp: neq_Nil_conv)

declare split_on.simps [simp del]

definition py_split_sep :: "string \<Rightarrow> string \<Rightarrow> error + string list" where
  "py_split_sep sep s = (if sep = [] then Inl ValueError else Inr (split_on sep [] s))"

text \<open>\<open>xs[i]\<close> for a list, with \<open>i\<close> not negative.\<close>

definition list_get :: "'a list \<Rightarrow> nat \<Rightarrow> error + 'a" where
  "list_get xs i = (if i < length xs then Inr (xs ! i) else Inl IndexError)"

text \<open>
  The group name of an alternative file, \<open>alt_fname.split(base+'_')[1].split(ext)[0]\<close>.
\<close>

definition get_gname :: "string \<Rightarrow> string \<Rightarrow> string \<Rightarrow> error + string" where
  "get_gname base ext alt_fname =
     (case py_split_sep (base @ ''_'') alt_fname of
        Inl e \<Rightarrow> Inl e
      | Inr parts \<Rightarrow>
          (case list_get parts 1 of
             Inl e \<Rightarrow> Inl e
           | Inr rest \<Rightarrow>
               (case py_split_sep ext rest of
                  Inl e \<Rightarrow> Inl e
                | Inr pieces \<Rightarrow> list_get pieces 0)))"

text \<open>
  \<open>get_fnames(fname)\<close>. What \<open>glob.glob\<close> returns for the pattern \<open>base_*ext\<close> depends
  on the file system; it is the parameter \<open>alt_fnames\<close>.
\<close>

fun get_fnames_loop ::
  "string \<Rightarrow> string \<Rightarrow> string list \<Rightarrow> (string, string) dict \<Rightarrow> error + (string, string) dict" where
  "get_fnames_loop base ext [] fnames = Inr fnames"
| "get_fnames_loop base ext (alt_fname # alt_fnames) fnames =
     (case get_gname base ext alt_fname of
        Inl e \<Rightarrow> Inl e
      | Inr gname \<Rightarrow> get_fnames_loop base ext alt_fnames (AList.update gname alt_fname fnames))"

definition get_fnames :: "string \<Rightarrow> string list \<Rightarrow> error + (string, string) dict" where
  "get_fnames fname alt_fnames =
     (let (base, ext) = splitext fname in
      get_fnames_loop base ext alt_fnames [(''Base'', fname)])"

text \<open>
  The file name the generation step gives the output of group \<open>g\<close>, and Python's
  \<open>s.find(sub)\<close>, used to say where a substring first occurs.
\<close>

definition alt_name :: "string \<Rightarrow> string \<Rightarrow> string \<Rightarrow> string" where
  "alt_name base ext g = base @ ''_'' @ g @ ext"

fun py_find_from :: "string \<Rightarrow> string \<Rightarrow> nat \<Rightarrow> nat option" where
  "py_find_from sub [] i = (if sub = [] then Some i else None)"
| "py_find_from sub (c # cs) i =
     (if prefix sub (c # cs) then Some i else py_find_from sub cs (Suc i))"

definition py_find :: "string \<Rightarrow> string \<Rightarrow> nat option" where
  "py_find sub s = py_find_from sub s 0"

text \<open>The part of \<open>s\<close> before the first occurrence of \<open>sep\<close>; all of \<open>s\<close> if there is none.\<close>

definition first_piece :: "string \<Rightarrow> string \<Rightarrow> string" where
  "first_piece sep s = (case py_find sep s of None \<Rightarrow> s | Some k \<Rightarrow> take k s)"

subsection \<open>syst\_breakdown.py: load\_poi\_data\<close>

text \<open>
  A fit-result container is read through ROOT. What a file holds is the parameter
  \<open>rd\<close>: for a file name, a workspace name and a snapshot name, the variables of the
  workspace in the order of its iterator, each with its value and errors in that
  snapshot. A file that cannot be opened is not modelled.
\<close>

record variable =
  var_name :: string
  var_val :: real
  var_err_lo :: real
  var_err_hi :: real

type_synonym reader = "string \<Rightarrow> string \<Rightarrow> string \<Rightarrow> variable list"

text \<open>The \<open>while var\<close> loop over the variables of one file: it fills \<open>tmp[gname]\<close>.\<close>

fun load_vars :: "string list \<Rightarrow> variable list \<Rightarrow> (string, POI) dict \<Rightarrow> (string, POI) dict" where
  "load_vars poi_list [] d = d"
| "load_vars poi_list (var # vars) d =
     (let name = var_name var; isMU = prefix ''mu_'' name in
      if \<not> isMU then load_vars poi_list vars d
      else if poi_list \<noteq> [] \<and> name \<notin> set poi_list then load_vars poi_list vars d
      else load_vars poi_list vars
             (AList.update name
                \<lparr>poi_name = name, poi_value = var_val var,
                 poi_err = (var_err_lo var, var_err_hi var)\<rparr> d))"

text \<open>The loop over the file names; it stops at the first file with no matching POI.\<close>

fun load_files ::
  "reader \<Rightarrow> string \<Rightarrow> string \<Rightarrow> string list \<Rightarrow> (string \<times> string) list
    \<Rightarrow> (string, (string, POI) dict) dict
    \<Rightarrow> log_event list \<times> (error + (string, (string, POI) dict) dict)" where
  "load_files rd wsname ssname poi_list [] tmp = ([], Inr tmp)"
| "load_files rd wsname ssname poi_list ((gname, fname) # rest) tmp =
     (let d = load_vars poi_list (rd fname wsname ssname) [] in
      if d = [] then ([ErrNoPOIs fname], Inl (SystemExit 1))
      else load_files rd wsname ssname poi_list rest (AList.update gname d tmp))"

text \<open>The restructuring: \<open>poi_data[pname][gname] = tmp[gname][pname]\<close>.\<close>

fun restructure_groups ::
  "(string, (string, POI) dict) dict \<Rightarrow> string \<Rightarrow> string list \<Rightarrow> (string, POI) dict
    \<Rightarrow> error + (string, POI) dict" where
  "restructure_groups tmp pname [] acc = Inr acc"
| "restructure_groups tmp pname (gname # gnames) acc =
     (case dict_get tmp gname of
        Inl e \<Rightarrow> Inl e
      | Inr d \<Rightarrow>
          (case dict_get d pname of
             Inl e \<Rightarrow> Inl e
           | Inr poi \<Rightarrow> restructure_groups tmp pname gnames (AList.update gname poi acc)))"

fun restructure ::
  "(string, (string, POI) dict) dict \<Rightarrow> string list \<Rightarrow> string list
    \<Rightarrow> (string, (string, POI) dict) dict \<Rightarrow> error + (string, (string, POI) dict) dict" where
  "restructure tmp gnames [] poi_data = Inr poi_data"
| "restructure tmp gnames (pname # pnames) poi_data =
     (case restructure_groups tmp pname gnames [] of
        Inl e \<Rightarrow> Inl e
      | Inr groups \<Rightarrow> restructure tmp gnames pnames (AList.update pname groups poi_data))"

definition load_poi_data ::
  "reader \<Rightarrow> (string, string) dict \<Rightarrow> string \<Rightarrow> string \<Rightarrow> string list
    \<Rightarrow> log_event list \<times> (error + (string, (string, POI) dict) dict)" where
  "load_poi_data rd fnames wsname ssname poi_list =
     (case load_files rd wsname ssname poi_list fnames [] of
        (lg, Inl e) \<Rightarrow> (lg, Inl e)
      | (lg, Inr tmp) \<Rightarrow>
          (case dict_get tmp ''Base'' of
             Inl e \<Rightarrow> (lg, Inl e)
           | Inr base \<Rightarrow> (lg, restructure tmp (dict_keys fnames) (dict_keys base) [])))"

text \<open>
  The POIs of a container in the words of the specification: the variables whose name
  starts with the POI prefix, restricted to the allow-list when one is given.
\<close>

definition matching_vars :: "string list \<Rightarrow> variable list \<Rightarrow> variable list" where
  "matching_vars poi_list vars =
     filter (\<lambda>var. prefix ''mu_'' (var_name var) \<and>
                   (poi_list = [] \<or> var_name var \<in> set poi_list)) vars"

subsection \<open>syst\_breakdown.py: check\_fit\_results\<close>

text \<open>
  The inner loop over the groups of one POI. Dividing a float by the float zero raises
  \<open>ZeroDivisionError\<close>.
\<close>

fun check_groups ::
  "string \<Rightarrow> POI \<Rightarrow> real \<Rightarrow> real \<Rightarrow> (string \<times> POI) list \<Rightarrow> log_event list
    \<Rightarrow> log_event list \<times> (error + unit)" where
  "check_groups pname base_poi base_sigma tolerance [] lg = (lg, Inr ())"
| "check_groups pname base_poi base_sigma tolerance ((gname, alt_poi) # items) lg =
     (if gname = ''Base'' then check_groups pname base_poi base_sigma tolerance items lg
      else if base_sigma = 0 then (lg, Inl ZeroDivisionError)
      else if \<bar>poi_value base_poi - poi_value alt_poi\<bar> / base_sigma > tolerance
      then check_groups pname base_poi base_sigma tolerance items
             (lg @ [WarnDiffer pname gname tolerance])
      else check_groups pname base_poi base_sigma tolerance items lg)"

definition base_scale :: "POI \<Rightarrow> real" where
  "base_scale base_poi = (\<bar>fst (poi_err base_poi)\<bar> + \<bar>snd (poi_err base_poi)\<bar>) / 2"

fun check_loop ::
  "real \<Rightarrow> (string \<times> (string, POI) dict) list \<Rightarrow> log_event list
    \<Rightarrow> log_event list \<times> (error + unit)" where
  "check_loop tolerance [] lg = (lg, Inr ())"
| "check_loop tolerance ((pname, groups) # rest) lg =
     (case dict_get groups ''Base'' of
        Inl e \<Rightarrow> (lg, Inl e)
      | Inr base_poi \<Rightarrow>
          (case check_groups pname base_poi (base_scale base_poi) tolerance groups lg of
             (lg', Inl e) \<Rightarrow> (lg', Inl e)
           | (lg', Inr u) \<Rightarrow> check_loop tolerance rest lg'))"

definition check_fit_results ::
  "(string, (string, POI) dict) dict \<Rightarrow> real \<Rightarrow> log_event list \<times> (error + unit)" where
  "check_fit_results poi_data tolerance = check_loop tolerance poi_data []"

subsection \<open>syst\_breakdown.py: compute\_impacts\<close>

fun impacts_groups ::
  "POI \<Rightarrow> (string \<times> POI) list \<Rightarrow> (string, real \<times> real) dict \<Rightarrow> log_event list
    \<Rightarrow> log_event list \<times> (string, real \<times> real) dict" where
  "impacts_groups base_poi [] acc lg = (lg, acc)"
| "impacts_groups base_poi ((gname, alt_poi) # items) acc lg =
     (if gname = ''Base'' then impacts_groups base_poi items acc lg
      else
        (case sub_quad_errs base_poi alt_poi of
           (lg', r) \<Rightarrow> impacts_groups base_poi items (AList.update gname r acc) (lg @ lg')))"

fun impacts_loop ::
  "(string \<times> (string, POI) dict) list \<Rightarrow> (string, (string, real \<times> real) dict) dict
    \<Rightarrow> log_event list
    \<Rightarrow> log_event list \<times> (error + (string, (string, real \<times> real) dict) dict)" where
  "impacts_loop [] impacts lg = (lg, Inr impacts)"
| "impacts_loop ((pname, groups) # rest) impacts lg =
     (case dict_get groups ''Base'' of
        Inl e \<Rightarrow> (lg, Inl e)
      | Inr base_poi \<Rightarrow>
          (case impacts_groups base_poi groups [] lg of
             (lg', inner) \<Rightarrow> impacts_loop rest (AList.update pname inner impacts) lg'))"

definition compute_impacts ::
  "(string, (string, POI) dict) dict
    \<Rightarrow> log_event list \<times> (error + (string, (string, real \<times> real) dict) dict)" where
  "compute_impacts poi_data = impacts_loop poi_data [] []"

text \<open>
  The well-formed \<open>poi_data\<close> of the data model: a dictionary of dictionaries (distinct
  keys at both levels) in which every POI has its \<open>Base\<close> entry.
\<close>

definition poi_data_wf :: "(string, (string, POI) dict) dict \<Rightarrow> bool" where
  "poi_data_wf poi_data =
     (dict_wf poi_data \<and>
      list_all (\<lambda>(pname, groups). dict_wf groups \<and> ''Base'' \<in> set (dict_keys groups)) poi_data)"

text \<open>
  The impact of one side in the words of the specification: the quadrature difference
  when the alternative error does not exceed the baseline error, and zero otherwise.
\<close>

definition quad_impact :: "real \<Rightarrow> real \<Rightarrow> real" where
  "quad_impact base_err alt_err =
     (if alt_err \<le> base_err then sqrt (base_err\<^sup>2 - alt_err\<^sup>2) else 0)"

subsection \<open>syst\_breakdown.py: print\_syst\_breakdown and main\<close>

text \<open>
  The report is a list of printed lines; a line carries the values that are formatted
  into it (the rendering \<open>{:.4f}\<close> of a float is not modelled). The lines printed before
  an exception stay printed, so the functions return the output beside the result.
\<close>

datatype out_line =
    Title                                     \<comment> \<open>Systematics Breakdown:\<close>
  | PoiHeading string                         \<comment> \<open>-- POI: name\<close>
  | Rule
  | ColumnHeader
  | BaseRow real real real                    \<comment> \<open>value, err low, err high\<close>
  | GroupRow string real real real real real  \<comment> \<open>group, value, errs, impacts\<close>
  | EndRule

definition print_last :: "string list" where
  "print_last = [''AllSys'', ''AllSys+QCDyield'', ''AllSys+QCDshape'', ''AllSys+QCD'']"

definition group_row ::
  "(string, (string, real \<times> real) dict) dict \<Rightarrow> string \<Rightarrow> string \<Rightarrow> POI \<Rightarrow> error + out_line" where
  "group_row impacts pname gname alt_poi =
     (case dict_get impacts pname of
        Inl e \<Rightarrow> Inl e
      | Inr inner \<Rightarrow>
          (case dict_get inner gname of
             Inl e \<Rightarrow> Inl e
           | Inr imp \<Rightarrow>
               Inr (GroupRow gname (poi_value alt_poi) (fst (poi_err alt_poi))
                      (snd (poi_err alt_poi)) (fst imp) (snd imp))))"

fun print_groups ::
  "(string, (string, real \<times> real) dict) dict \<Rightarrow> string \<Rightarrow> (string \<times> POI) list \<Rightarrow> out_line list
    \<Rightarrow> out_line list \<times> (error + unit)" where
  "print_groups impacts pname [] out = (out, Inr ())"
| "print_groups impacts pname ((gname, alt_poi) # items) out =
     (if gname \<in> set (''Base'' # print_last) then print_groups impacts pname items out
      else
        (case group_row impacts pname gname alt_poi of
           Inl e \<Rightarrow> (out, Inl e)
         | Inr row \<Rightarrow> print_groups impacts pname items (out @ [row])))"

fun print_last_groups ::
  "(string, (string, real \<times> real) dict) dict \<Rightarrow> string \<Rightarrow> (string, POI) dict \<Rightarrow> string list
    \<Rightarrow> out_line list \<Rightarrow> out_line list \<times> (error + unit)" where
  "print_last_groups impacts pname groups [] out = (out, Inr ())"
| "print_last_groups impacts pname groups (gname # gnames) out =
     (case map_of groups gname of
        None \<Rightarrow> print_last_groups impacts pname groups gnames out
      | Some alt_poi \<Rightarrow>
          (case group_row impacts pname gname alt_poi of
             Inl e \<Rightarrow> (out, Inl e)
           | Inr row \<Rightarrow> print_last_groups impacts pname groups gnames (out @ [row])))"

fun print_pois ::
  "(string, (string, real \<times> real) dict) dict \<Rightarrow> (string \<times> (string, POI) dict) list
    \<Rightarrow> out_line list \<Rightarrow> out_line list \<times> (error + unit)" where
  "print_pois impacts [] out = (out, Inr ())"
| "print_pois impacts ((pname, groups) # rest) out =
     (case dict_get groups ''Base'' of
        Inl e \<Rightarrow> (out, Inl e)
      | Inr base_poi \<Rightarrow>
          (let out1 = out @ [PoiHeading (poi_name base_poi), Rule, ColumnHeader, Rule,
                             BaseRow (poi_value base_poi) (fst (poi_err base_poi))
                               (snd (poi_err base_poi))] in
           case print_groups impacts pname groups out1 of
             (out2, Inl e) \<Rightarrow> (out2, Inl e)
           | (out2, Inr u) \<Rightarrow>
               (case print_last_groups impacts pname groups print_last out2 of
                  (out3, Inl e) \<Rightarrow> (out3, Inl e)
                | (out3, Inr u) \<Rightarrow> print_pois impacts rest (out3 @ [EndRule]))))"

definition print_syst_breakdown ::
  "(string, (string, POI) dict) dict \<Rightarrow> (string, (string, real \<times> real) dict) dict
    \<Rightarrow> out_line list \<times> (error + unit)" where
  "print_syst_breakdown poi_data impacts = print_pois impacts poi_data [Title]"

text \<open>
  The body of \<open>main\<close>, from the parsed arguments on. The result is the log, the printed
  lines and how the run ends (\<open>Inr ()\<close> is a normal end). The call of \<open>main\<close> at the
  bottom of the file is not modelled.
\<close>

record args =
  arg_input :: string
  arg_ws :: string
  arg_ss :: string
  arg_poi :: string

definition poi_list_of :: "args \<Rightarrow> error + string list" where
  "poi_list_of a = (if arg_poi a \<noteq> [] then py_split_sep '','' (arg_poi a) else Inr [])"

definition main ::
  "reader \<Rightarrow> string list \<Rightarrow> args \<Rightarrow> log_event list \<times> out_line list \<times> (error + unit)" where
  "main rd alt_fnames a =
     (case get_fnames (arg_input a) alt_fnames of
        Inl e \<Rightarrow> ([], [], Inl e)
      | Inr fnames \<Rightarrow>
          (case poi_list_of a of
             Inl e \<Rightarrow> ([], [], Inl e)
           | Inr poi_list \<Rightarrow>
               (case load_poi_data rd fnames (arg_ws a) (arg_ss a) poi_list of
                  (lg1, Inl e) \<Rightarrow> (lg1, [], Inl e)
                | (lg1, Inr poi_data) \<Rightarrow>
                    (case check_fit_results poi_data (1 / 2) of
                       (lg2, Inl e) \<Rightarrow> (lg1 @ lg2, [], Inl e)
                     | (lg2, Inr u) \<Rightarrow>
                         (case compute_impacts poi_data of
                            (lg3, Inl e) \<Rightarrow> (lg1 @ lg2 @ lg3, [], Inl e)
                          | (lg3, Inr impacts) \<Rightarrow>
                              (case print_syst_breakdown poi_data impacts of
                                 (out, r) \<Rightarrow> (lg1 @ lg2 @ lg3, out, r)))))))"

text \<open>The names of the POIs a file yields, in the words of the specification.\<close>

definition poi_names :: "reader \<Rightarrow> string \<Rightarrow> string \<Rightarrow> string list \<Rightarrow> string \<Rightarrow> string set" where
  "poi_names rd wsname ssname poi_list fname =
     var_name ` set (matching_vars poi_list (rd fname wsname ssname))"

subsection \<open>Example containers\<close>

text \<open>
  A small file system for the concrete cases below: the baseline \<open>b.root\<close> holds the POIs
  \<open>mu_a\<close> and \<open>mu_b\<close> and a nuisance parameter, \<open>b_g1.root\<close> holds only \<open>mu_a\<close>,
  \<open>b_g3.root\<close> holds both POIs, and every other file holds no variable.
\<close>

definition example_reader :: reader where
  "example_reader fname wsname ssname =
     (if fname = ''b.root'' then
        [\<lparr>var_name = ''mu_a'', var_val = 1, var_err_lo = 3, var_err_hi = 5\<rparr>,
         \<lparr>var_name = ''alpha_x'', var_val = 0, var_err_lo = 1, var_err_hi = 1\<rparr>,
         \<lparr>var_name = ''mu_b'', var_val = 2, var_err_lo = 1, var_err_hi = 1\<rparr>]
      else if fname = ''b_g1.root'' then
        [\<lparr>var_name = ''mu_a'', var_val = 1, var_err_lo = 2, var_err_hi = 4\<rparr>]
      else if fname = ''b_g3.root'' then
        [\<lparr>var_name = ''mu_a'', var_val = 1, var_err_lo = 2, var_err_hi = 4\<rparr>,
         \<lparr>var_name = ''mu_b'', var_val = 2, var_err_lo = 1, var_err_hi = 1\<rparr>]
      else [])"

section \<open>Properties\<close>

subsection \<open>Strings and dictionaries\<close>

lemma str_contains_sublist: "str_contains a b = sublist a b"
  by (induction b) (auto simp: sublist_Cons_right)

lemma dict_get_in:
  assumes "dict_wf d" and "(k, v) \<in> set d"
  shows "dict_get d k = Inr v"
  using assms by (simp add: dict_get_def dict_wf_def)

lemma list_index_less: "x \<in> set xs \<Longrightarrow> list_index x xs < length xs"
  by (induction xs) auto

lemma nth_list_index: "x \<in> set xs \<Longrightarrow> xs ! list_index x xs = x"
  by (induction xs) auto

lemma list_index_first: "i < list_index x xs \<Longrightarrow> xs ! i \<noteq> x"
  by (induction xs arbitrary: i) (auto simp: nth_Cons split: nat.splits if_splits)

lemma list_index_append: "x \<in> set xs \<Longrightarrow> list_index x (xs @ ys) = list_index x xs"
  by (induction xs) auto

lemma list_index_update:
  "x \<in> set xs \<Longrightarrow> j \<noteq> list_index x xs \<Longrightarrow> y \<noteq> x \<Longrightarrow> list_index x (xs[j := y]) = list_index x xs"
  by (induction xs arbitrary: j) (auto split: nat.splits)

lemma in_set_update_other:
  "x \<in> set xs \<Longrightarrow> j \<noteq> list_index x xs \<Longrightarrow> x \<in> set (xs[j := y])"
proof -
  assume a: "x \<in> set xs" "j \<noteq> list_index x xs"
  then have "xs[j := y] ! list_index x xs = x" "list_index x xs < length (xs[j := y])"
    by (simp_all add: nth_list_index list_index_less)
  then show ?thesis by (metis nth_mem)
qed

lemma notin_set_update: "x \<notin> set xs \<Longrightarrow> y \<noteq> x \<Longrightarrow> x \<notin> set (xs[j := y])"
  by (induction xs arbitrary: j) (auto split: nat.splits)

subsection \<open>fixed\_systs\<close>

lemma format_keys_ok:
  assumes "dict_wf info"
  shows "set keys \<subseteq> set (dict_keys info) \<Longrightarrow>
    format_keys fmt info keys = Inr (map (\<lambda>k. k @ ''='' @ fmt (the (map_of info k))) keys)"
proof (induction keys)
  case Nil then show ?case by simp
next
  case (Cons k ks)
  then obtain v where "(k, v) \<in> set info" by (auto simp: dict_keys_def)
  with assms have "dict_get info k = Inr v" "map_of info k = Some v"
    by (auto simp: dict_get_in dict_wf_def)
  with Cons show ?case by simp
qed

lemma matched_entries:
  assumes "dict_wf info"
  shows "map (\<lambda>k. k @ ''='' @ fmt (the (map_of info k))) (matched_keys syst info)
       = map (\<lambda>(name, v). name @ ''='' @ fmt v) (filter (\<lambda>(name, v). sublist syst name) info)"
proof -
  have the: "\<And>k v. (k, v) \<in> set info \<Longrightarrow> the (map_of info k) = v"
    using assms by (simp add: dict_wf_def)
  have "map (\<lambda>k. k @ ''='' @ fmt (the (map_of info k))) (matched_keys syst info)
      = map (\<lambda>p. fst p @ ''='' @ fmt (the (map_of info (fst p)))) (filter (\<lambda>p. sublist syst (fst p)) info)"
    by (simp add: matched_keys_def dict_keys_def str_contains_sublist filter_map comp_def)
  also have "\<dots> = map (\<lambda>(name, v). name @ ''='' @ fmt v) (filter (\<lambda>p. sublist syst (fst p)) info)"
    by (rule map_cong) (auto simp: the)
  finally show ?thesis by (simp add: case_prod_unfold)
qed

lemma matched_keys_Nil:
  "matched_keys syst info = [] \<longleftrightarrow> \<not> list_ex (\<lambda>(name, v). sublist syst name) info"
  by (auto simp: matched_keys_def dict_keys_def str_contains_sublist filter_empty_conv list_ex_iff)

lemma fixed_systs_loop_spec:
  assumes "dict_wf info"
  shows "fixed_systs_loop fmt info systs syst_list lg =
    (lg @ fixed_systs_warnings systs info,
     Inr (syst_list @ concat (map (\<lambda>syst. map (\<lambda>(name, v). name @ ''='' @ fmt v)
                              (filter (\<lambda>(name, v). sublist syst name) info)) systs)))"
proof (induction systs arbitrary: syst_list lg)
  case Nil
  then show ?case by (simp add: fixed_systs_warnings_def)
next
  case (Cons syst systs)
  show ?case
  proof (cases "matched_keys syst info = []")
    case True
    then have "filter (\<lambda>(name, v). sublist syst name) info = []"
      by (auto simp: matched_keys_Nil list_ex_iff filter_empty_conv)
    with True Cons show ?thesis
      by (simp add: fixed_systs_warnings_def matched_keys_Nil)
  next
    case False
    have "format_keys fmt info (matched_keys syst info)
        = Inr (map (\<lambda>(name, v). name @ ''='' @ fmt v) (filter (\<lambda>(name, v). sublist syst name) info))"
      using format_keys_ok[OF assms, of "matched_keys syst info" fmt] matched_entries[OF assms, of fmt syst]
      by (simp add: matched_keys_def)
    with False Cons show ?thesis
      by (simp add: fixed_systs_warnings_def matched_keys_Nil)
  qed
qed

text \<open>
  Claim C6. For a snapshot with distinct names, \<open>fixed_systs\<close> never fails and returns
  the string of \<open>fixed_systs_spec\<close>: for each substring of the group in order, every
  snapshot name that contains it (containment, not equality), in the snapshot's order,
  as \<open>name=value\<close>, all joined with commas. The log is one warning for each substring
  that matches no name, and such a substring adds nothing to the string.
\<close>

theorem fixed_systs_refines_spec:
  assumes "dict_wf info"
  shows "fixed_systs fmt systs info =
           (fixed_systs_warnings systs info, Inr (fixed_systs_spec fmt systs info))"
  using fixed_systs_loop_spec[OF assms, of fmt systs "[]" "[]"]
  by (simp add: fixed_systs_def fixed_systs_spec_def)

theorem fixed_systs_refines_spec_witness:
  "dict_wf [(''alpha_a_1'', 1::nat), (''xalpha_a'', 2), (''b'', 3)] \<and>
   fixed_systs (\<lambda>x::nat. if x = 1 then ''0.5'' else ''2.0'') [''alpha_a'', ''zz'', ''b'']
      [(''alpha_a_1'', 1), (''xalpha_a'', 2), (''b'', 3)]
    = ([WarnNoInfoNP ''zz''], Inr ''alpha_a_1=0.5,xalpha_a=2.0,b=2.0'')"
proof -
  have wf: "dict_wf [(''alpha_a_1'', 1::nat), (''xalpha_a'', 2), (''b'', 3)]"
    by (simp add: dict_wf_def)
  show ?thesis
    using wf fixed_systs_refines_spec[OF wf, of "\<lambda>x::nat. if x = 1 then ''0.5'' else ''2.0''" "[''alpha_a'', ''zz'', ''b'']"]
    by (simp add: fixed_systs_spec_def fixed_systs_warnings_def sublist_code)
qed


subsection \<open>edit\_cmd\<close>

lemma flag_value_Some_iff:
  "flag_value flag toks = Some v \<longleftrightarrow>
     flag \<in> set toks \<and> list_index flag toks + 1 < length toks \<and> v = toks ! (list_index flag toks + 1)"
  using list_index_less[of flag toks] by (auto simp: flag_value_def)

lemma flag_value_append:
  "flag \<in> set toks \<Longrightarrow> list_index flag toks + 1 < length toks \<Longrightarrow>
   flag_value flag (toks @ [t]) = flag_value flag toks"
  by (simp add: flag_value_def list_index_append nth_append)

lemma flag_value_update_other:
  assumes "flag \<in> set toks" "j \<noteq> list_index flag toks" "j \<noteq> Suc (list_index flag toks)" "y \<noteq> flag"
  shows "flag_value flag (toks[j := y]) = flag_value flag toks"
  using assms by (simp add: flag_value_def list_index_update in_set_update_other)

lemma flag_value_update_value:
  assumes "flag \<in> set toks" "Suc (list_index flag toks) < length toks" "y \<noteq> flag"
  shows "flag_value flag (toks[Suc (list_index flag toks) := y]) = Some y"
  using assms by (simp add: flag_value_def list_index_update in_set_update_other)

lemma splitext_loop_Some:
  "splitext_loop p i d = Some r \<Longrightarrow> r = (take d p, drop d p)"
proof (induction p i d rule: splitext_loop.induct)
  case (1 p i d)
  from "1.prems" show ?case
    by (subst (asm) splitext_loop.simps) (auto split: if_splits intro: "1.IH")
qed

lemma splitext_append: "splitext p = (a, b) \<Longrightarrow> p = a @ b"
  by (auto simp: splitext_def Let_def split: if_splits option.splits dest: splitext_loop_Some)


lemma handle_o_Inr:
  "handle_o toks g = (lg, Inr sc) \<longleftrightarrow>
     (''-o'' \<notin> set toks \<and> lg = [WarnMissingO] \<and> sc = toks @ [''-o '' @ g @ ''.root'']) \<or>
     (\<exists>v stem. flag_value ''-o'' toks = Some v \<and> splitext v = (stem, ''.root'') \<and> lg = [] \<and>
        sc = toks[list_index ''-o'' toks + 1 := stem @ ''_'' @ g @ ''.root''])"
  using list_index_less[of "''-o''" toks]
  by (auto simp: handle_o_def Let_def flag_value_def split: if_splits prod.splits)

lemma handle_p_Inr:
  "handle_p toks fixed = (lg, Inr sc) \<longleftrightarrow>
     (''-p'' \<notin> set toks \<and> lg = [WarnMissingP] \<and> sc = toks @ [''-p '' @ fixed]) \<or>
     (\<exists>pv. flag_value ''-p'' toks = Some pv \<and> CHR ''='' \<in> set pv \<and> lg = [] \<and>
        sc = toks[list_index ''-p'' toks + 1 := pv @ '','' @ fixed])"
  using list_index_less[of "''-p''" toks]
  by (auto simp: handle_p_def Let_def flag_value_def split: if_splits prod.splits)

lemma edit_split_cmd_Inr:
  "edit_split_cmd toks g fixed = (lg, Inr toks') \<longleftrightarrow>
     (\<exists>lg1 lg2 sc. handle_o toks g = (lg1, Inr sc) \<and> handle_p sc fixed = (lg2, Inr toks') \<and> lg = lg1 @ lg2)"
  by (auto simp: edit_split_cmd_def split: prod.splits sum.splits)

lemma edit_cmd_Inr:
  "edit_cmd cmd g fixed = (lg, Inr cmd') \<longleftrightarrow>
     (\<exists>toks'. edit_split_cmd (py_split cmd) g fixed = (lg, Inr toks') \<and> cmd' = join '' '' toks')"
  by (auto simp: edit_cmd_def split: prod.splits sum.splits)

lemma handle_p_keeps_o:
  assumes p: "handle_p sc fixed = (lg2, Inr toks')"
    and o: "flag_value ''-o'' sc = Some w"
  shows "flag_value ''-o'' toks' = Some w"
proof -
  from o have oin: "''-o'' \<in> set sc" and olt: "list_index ''-o'' sc + 1 < length sc"
    by (simp_all add: flag_value_Some_iff)
  from p consider
      (absent) "toks' = sc @ [''-p '' @ fixed]"
    | (present) pv where "flag_value ''-p'' sc = Some pv" "CHR ''='' \<in> set pv"
        "toks' = sc[list_index ''-p'' sc + 1 := pv @ '','' @ fixed]"
    by (auto simp: handle_p_Inr)
  then show ?thesis
  proof cases
    case absent
    with o oin olt show ?thesis by (simp add: flag_value_append)
  next
    case present
    let ?ip = "list_index ''-p'' sc" and ?io = "list_index ''-o'' sc"
    from present(1) have pin: "''-p'' \<in> set sc" and pv: "pv = sc ! (?ip + 1)"
      by (simp_all add: flag_value_Some_iff)
    have "sc ! ?ip = ''-p''" "sc ! ?io = ''-o''"
      using pin oin by (simp_all add: nth_list_index)
    then have ne: "?ip \<noteq> ?io" by auto
    have "sc ! (?ip + 1) \<noteq> ''-o''"
      using present(2) pv by auto
    then have ne2: "?ip + 1 \<noteq> ?io"
      using \<open>sc ! ?io = ''-o''\<close> by metis
    have "CHR ''='' \<in> set (pv @ '','' @ fixed)" "CHR ''='' \<notin> set ''-o''"
      using present(2) by simp_all
    then have "pv @ '','' @ fixed \<noteq> ''-o''" by metis
    with ne ne2 oin o present(3) show ?thesis
      by (simp add: flag_value_update_other)
  qed
qed

lemma handle_o_gives_value:
  assumes h: "handle_o toks g = (lg1, Inr sc)"
    and o: "flag_value ''-o'' toks = Some v"
  shows "\<exists>stem. splitext v = (stem, ''.root'') \<and>
           flag_value ''-o'' sc = Some (stem @ ''_'' @ g @ ''.root'')"
proof -
  from o have oin: "''-o'' \<in> set toks" and olt: "list_index ''-o'' toks + 1 < length toks"
    by (simp_all add: flag_value_Some_iff)
  from h oin o obtain stem where st: "splitext v = (stem, ''.root'')"
    and sc: "sc = toks[list_index ''-o'' toks + 1 := stem @ ''_'' @ g @ ''.root'']"
    by (auto simp: handle_o_Inr)
  have "stem @ ''_'' @ g @ ''.root'' \<noteq> ''-o''"
    by (cases stem; cases g) (auto simp: Cons_eq_append_conv)
  with oin olt sc have "flag_value ''-o'' sc = Some (stem @ ''_'' @ g @ ''.root'')"
    by (simp add: flag_value_update_value)
  with st show ?thesis by blast
qed

lemma handle_o_keeps_p:
  assumes h: "handle_o toks g = (lg1, Inr sc)"
    and p: "flag_value ''-p'' toks = Some pv"
  shows "flag_value ''-p'' sc = Some pv"
proof -
  from p have pin: "''-p'' \<in> set toks" and plt: "list_index ''-p'' toks + 1 < length toks"
    by (simp_all add: flag_value_Some_iff)
  from h consider
      (absent) "sc = toks @ [''-o '' @ g @ ''.root'']"
    | (present) v stem where "flag_value ''-o'' toks = Some v" "splitext v = (stem, ''.root'')"
        "sc = toks[list_index ''-o'' toks + 1 := stem @ ''_'' @ g @ ''.root'']"
    by (auto simp: handle_o_Inr)
  then show ?thesis
  proof cases
    case absent
    with p pin plt show ?thesis by (simp add: flag_value_append)
  next
    case present
    let ?ip = "list_index ''-p'' toks" and ?io = "list_index ''-o'' toks"
    from present(1) have oin: "''-o'' \<in> set toks" and v: "v = toks ! (?io + 1)"
      by (simp_all add: flag_value_Some_iff)
    have nth: "toks ! ?ip = ''-p''" "toks ! ?io = ''-o''"
      using pin oin by (simp_all add: nth_list_index)
    then have ne: "Suc ?io \<noteq> Suc ?ip" by auto
    from present(2) have "v = stem @ ''.root''" by (rule splitext_append)
    then have "v \<noteq> ''-p''" by (cases stem) auto
    then have ne2: "Suc ?io \<noteq> ?ip"
      using nth(1) v by auto
    have "stem @ ''_'' @ g @ ''.root'' \<noteq> ''-p''"
      by (cases stem; cases g) (auto simp: Cons_eq_append_conv)
    with ne ne2 pin p present(3) show ?thesis
      by (simp add: flag_value_update_other)
  qed
qed

lemma handle_p_gives_value:
  assumes h: "handle_p sc fixed = (lg2, Inr toks')"
    and p: "flag_value ''-p'' sc = Some pv"
  shows "CHR ''='' \<in> set pv \<and> flag_value ''-p'' toks' = Some (pv @ '','' @ fixed)"
proof -
  from p have pin: "''-p'' \<in> set sc" and plt: "list_index ''-p'' sc + 1 < length sc"
    by (simp_all add: flag_value_Some_iff)
  from h pin p have eq: "CHR ''='' \<in> set pv"
    and t: "toks' = sc[list_index ''-p'' sc + 1 := pv @ '','' @ fixed]"
    by (auto simp: handle_p_Inr)
  have "CHR ''='' \<in> set (pv @ '','' @ fixed)" "CHR ''='' \<notin> set ''-p''"
    using eq by simp_all
  then have "pv @ '','' @ fixed \<noteq> ''-p''" by metis
  with pin plt t have "flag_value ''-p'' toks' = Some (pv @ '','' @ fixed)"
    by (simp add: flag_value_update_value)
  with eq show ?thesis by simp
qed

lemma generate_alt_cmds_scenario:
  assumes "fmt (1 / 2 :: real) = ''0.5''"
  shows "generate_alt_cmds fmt ''fit -o out.root -p mu=1_0_2'' [(''sysA'', [''alpha_a''])]
           [(''alpha_a_1'', 1 / 2)]
         = ([], Inr [''fit -o out_sysA.root -p mu=1_0_2,alpha_a_1=0.5''])"
proof -
  have f: "fixed_systs fmt [''alpha_a''] [(''alpha_a_1'', 1 / 2 :: real)] = ([], Inr ''alpha_a_1=0.5'')"
    using assms
    by (simp add: fixed_systs_def matched_keys_def dict_keys_def dict_get_def)
  have e: "edit_cmd ''fit -o out.root -p mu=1_0_2'' ''sysA'' ''alpha_a_1=0.5''
           = ([], Inr ''fit -o out_sysA.root -p mu=1_0_2,alpha_a_1=0.5'')"
    by code_simp
  show ?thesis
    by (simp add: generate_alt_cmds_def f e)
qed

subsection \<open>The derived command as a string\<close>

text \<open>
  \<open>edit_cmd\<close> joins the edited tokens with single spaces. Splitting the result gives the
  tokens back when none of them is empty or contains whitespace; this is so when the
  baseline has both \<open>-o\<close> and \<open>-p\<close> and neither the group name nor the fixed-parameter
  string contains whitespace.
\<close>

lemma split_ws_space:
  "is_space c \<Longrightarrow> split_ws cur (s @ c # t) = split_ws cur s @ split_ws [] t"
  by (induction s arbitrary: cur) auto

lemma py_split_join:
  "py_split (join '' '' toks) = concat (map py_split toks)"
proof (induction "'' ''" toks rule: join.induct)
  case 1
  then show ?case by (simp add: py_split_def)
next
  case (2 x)
  then show ?case by simp
next
  case (3 x y ys)
  have sp: "is_space CHR '' ''" by (simp add: is_space_def whitespace_def)
  have "py_split (join '' '' (x # y # ys)) = split_ws [] (x @ CHR '' '' # join '' '' (y # ys))"
    by (simp add: py_split_def)
  also have "\<dots> = split_ws [] x @ split_ws [] (join '' '' (y # ys))"
    using sp by (rule split_ws_space)
  finally show ?case using 3 by (simp add: py_split_def)
qed

lemma split_ws_no_space:
  "no_space t \<Longrightarrow> split_ws cur t = (if cur = [] \<and> t = [] then [] else [rev cur @ t])"
  by (induction t arbitrary: cur) (auto simp: no_space_def)

lemma py_split_token: "no_space t \<Longrightarrow> t \<noteq> [] \<Longrightarrow> py_split t = [t]"
  by (simp add: py_split_def split_ws_no_space)

lemma split_ws_tokens:
  "no_space cur \<Longrightarrow> t \<in> set (split_ws cur s) \<Longrightarrow> no_space t \<and> t \<noteq> []"
proof (induction s arbitrary: cur)
  case Nil
  then show ?case by (auto simp: no_space_def split: if_splits)
next
  case (Cons c s)
  have e: "no_space []" by (simp add: no_space_def)
  show ?case
  proof (cases "is_space c")
    case True
    with Cons.prems have "t = rev cur \<and> cur \<noteq> [] \<or> t \<in> set (split_ws [] s)"
      by (auto split: if_splits)
    then show ?thesis
      using Cons.prems(1) Cons.IH[OF e] by (auto simp: no_space_def)
  next
    case False
    with Cons.prems(1) have "no_space (c # cur)" by (simp add: no_space_def)
    from Cons.IH[OF this] Cons.prems(2) False show ?thesis by simp
  qed
qed

lemma py_split_tokens: "t \<in> set (py_split s) \<Longrightarrow> no_space t \<and> t \<noteq> []"
  using split_ws_tokens[of "[]" t s] by (simp add: py_split_def no_space_def)

lemma py_split_join_tokens:
  "\<forall>t \<in> set toks. no_space t \<and> t \<noteq> [] \<Longrightarrow> py_split (join '' '' toks) = toks"
proof -
  assume a: "\<forall>t \<in> set toks. no_space t \<and> t \<noteq> []"
  then have "concat (map py_split toks) = toks"
    by (induction toks) (simp_all add: py_split_token)
  then show ?thesis by (simp add: py_split_join)
qed


lemma no_space_append: "no_space (a @ b) \<longleftrightarrow> no_space a \<and> no_space b"
  by (auto simp: no_space_def)

lemma good_update:
  assumes "\<forall>t \<in> set toks. no_space t \<and> t \<noteq> []" and "no_space y" and "y \<noteq> []"
  shows "\<forall>t \<in> set (toks[j := y]). no_space t \<and> t \<noteq> []"
  using assms set_update_subset_insert[of toks j y] by auto

lemma edit_cmd_resplit:
  assumes r: "edit_cmd cmd g fixed = (lg, Inr cmd')"
    and g: "no_space g" and f: "no_space fixed"
    and oin: "''-o'' \<in> set (py_split cmd)" and pin: "''-p'' \<in> set (py_split cmd)"
  shows "edit_split_cmd (py_split cmd) g fixed = (lg, Inr (py_split cmd'))"
proof -
  let ?toks = "py_split cmd"
  from r obtain toks' lg1 lg2 sc where
    e: "edit_split_cmd ?toks g fixed = (lg, Inr toks')" and c: "cmd' = join '' '' toks'"
    and ho: "handle_o ?toks g = (lg1, Inr sc)" and hp: "handle_p sc fixed = (lg2, Inr toks')"
    by (auto simp: edit_cmd_Inr edit_split_cmd_Inr)
  have good: "\<forall>t \<in> set ?toks. no_space t \<and> t \<noteq> []"
    using py_split_tokens by blast
  from ho oin obtain v stem where fv: "flag_value ''-o'' ?toks = Some v"
    and st: "splitext v = (stem, ''.root'')"
    and sc: "sc = ?toks[Suc (list_index ''-o'' ?toks) := stem @ ''_'' @ g @ ''.root'']"
    by (auto simp: handle_o_Inr)
  from fv have lt: "Suc (list_index ''-o'' ?toks) < length ?toks"
    and v: "v = ?toks ! Suc (list_index ''-o'' ?toks)"
    by (simp_all add: flag_value_Some_iff)
  from st have vs: "v = stem @ ''.root''" by (rule splitext_append)
  from v lt good have "no_space v" by (metis nth_mem)
  with vs have "no_space stem" by (simp add: no_space_append)
  with g have ny: "no_space (stem @ ''_'' @ g @ ''.root'')"
    by (simp add: no_space_append) (simp add: no_space_def is_space_def whitespace_def)
  have "stem @ ''_'' @ g @ ''.root'' \<noteq> []" by simp
  from good_update[OF good ny this] sc have good1: "\<forall>t \<in> set sc. no_space t \<and> t \<noteq> []"
    by simp
  have "?toks ! list_index ''-p'' ?toks = ''-p''" using pin by (rule nth_list_index)
  moreover have "v \<noteq> ''-p''" using vs by (cases stem) auto
  ultimately have "Suc (list_index ''-o'' ?toks) \<noteq> list_index ''-p'' ?toks"
    using v by metis
  with pin sc have "''-p'' \<in> set sc" by (simp add: in_set_update_other)
  with hp obtain pv where fp: "flag_value ''-p'' sc = Some pv"
    and t: "toks' = sc[Suc (list_index ''-p'' sc) := pv @ '','' @ fixed]"
    by (auto simp: handle_p_Inr)
  from fp have "pv \<in> set sc" by (auto simp: flag_value_Some_iff)
  with good1 have "no_space pv" by blast
  with f have np: "no_space (pv @ '','' @ fixed)"
    by (simp add: no_space_append) (simp add: no_space_def is_space_def whitespace_def)
  have "pv @ '','' @ fixed \<noteq> []" by simp
  from good_update[OF good1 np this] t have "\<forall>t \<in> set toks'. no_space t \<and> t \<noteq> []"
    by simp
  then have "py_split cmd' = toks'" unfolding c by (rule py_split_join_tokens)
  with e show ?thesis by simp
qed

subsection \<open>When edit\_cmd exits\<close>

lemma update_keeps_flag:
  assumes "toks ! j \<noteq> flag" "y \<noteq> flag" "j < length toks"
  shows "flag \<in> set (toks[j := y]) \<longleftrightarrow> flag \<in> set toks"
    and "list_index flag (toks[j := y]) = list_index flag toks"
  using assms
  by (induction toks arbitrary: j) (auto split: nat.splits)

lemma handle_o_Inl:
  "handle_o toks g = (lg, Inl e) \<longleftrightarrow>
     e = SystemExit 1 \<and>
     ((flag_last ''-o'' toks \<and> lg = [ErrOLast]) \<or> (o_lacks_ext toks \<and> lg = [ErrOExt]))"
  using list_index_less[of "''-o''" toks]
  by (auto simp: handle_o_def Let_def flag_value_def flag_last_def o_lacks_ext_def
      split: if_splits prod.splits)

lemma handle_p_Inl:
  "handle_p toks fixed = (lg, Inl e) \<longleftrightarrow>
     e = SystemExit 1 \<and>
     ((flag_last ''-p'' toks \<and> lg = [ErrPLast]) \<or> (p_lacks_eq toks \<and> lg = [ErrPFormat]))"
  using list_index_less[of "''-p''" toks]
  by (auto simp: handle_p_def Let_def flag_value_def flag_last_def p_lacks_eq_def
      split: if_splits prod.splits)


lemma handle_o_present_keeps_p:
  assumes h: "handle_o toks g = (lg1, Inr sc)" and oin: "''-o'' \<in> set toks"
  shows "flag_last ''-p'' sc = flag_last ''-p'' toks"
    and "flag_value ''-p'' sc = flag_value ''-p'' toks"
proof -
  let ?io = "list_index ''-o'' toks" and ?ip = "list_index ''-p'' toks"
  from h oin obtain v stem where fv: "flag_value ''-o'' toks = Some v"
    and st: "splitext v = (stem, ''.root'')"
    and sc0: "sc = toks[Suc ?io := stem @ ''_'' @ g @ ''.root'']"
    by (auto simp: handle_o_Inr)
  define y where "y = stem @ ''_'' @ g @ ''.root''"
  from sc0 have sc: "sc = toks[Suc ?io := y]" by (simp add: y_def)
  from fv have lt: "Suc ?io < length toks" and v: "v = toks ! Suc ?io"
    by (simp_all add: flag_value_Some_iff)
  from st have "v = stem @ ''.root''" by (rule splitext_append)
  then have old: "toks ! Suc ?io \<noteq> ''-p''" using v by (cases stem) auto
  have new: "y \<noteq> ''-p''"
    unfolding y_def by (cases stem; cases g) (auto simp: Cons_eq_append_conv)
  note keep = update_keeps_flag[OF old new lt]
  show "flag_last ''-p'' sc = flag_last ''-p'' toks"
    by (simp add: flag_last_def sc keep)
  show "flag_value ''-p'' sc = flag_value ''-p'' toks"
  proof (cases "''-p'' \<in> set toks")
    case False
    then show ?thesis by (simp add: flag_value_def sc keep)
  next
    case True
    have "toks ! ?ip = ''-p''" "toks ! ?io = ''-o''"
      using True oin by (simp_all add: nth_list_index)
    then have "?ip \<noteq> ?io" by auto
    then show ?thesis by (simp add: flag_value_def sc keep)
  qed
qed

lemma handle_o_absent_p:
  assumes h: "handle_o toks g = (lg1, Inr sc)" and onin: "''-o'' \<notin> set toks"
  shows "\<not> flag_last ''-p'' sc"
    and "p_lacks_eq sc \<longleftrightarrow> p_lacks_eq toks \<or> (flag_last ''-p'' toks \<and> CHR ''='' \<notin> set g)"
proof -
  let ?t = "''-o '' @ g @ ''.root''"
  from h onin have sc: "sc = toks @ [?t]" by (auto simp: handle_o_Inr flag_value_def)
  have t: "?t \<noteq> ''-p''" by simp
  have eq: "CHR ''='' \<in> set ?t \<longleftrightarrow> CHR ''='' \<in> set g" by auto
  show "\<not> flag_last ''-p'' sc"
    using list_index_less[of "''-p''" toks]
    by (auto simp: flag_last_def sc list_index_append)
  show "p_lacks_eq sc \<longleftrightarrow> p_lacks_eq toks \<or> (flag_last ''-p'' toks \<and> CHR ''='' \<notin> set g)"
  proof (cases "''-p'' \<in> set toks")
    case False
    then show ?thesis by (simp add: p_lacks_eq_def flag_value_def flag_last_def sc)
  next
    case True
    note lt = list_index_less[OF True]
    show ?thesis
    proof (cases "Suc (list_index ''-p'' toks) < length toks")
      case True
      with \<open>''-p'' \<in> set toks\<close> show ?thesis
        by (auto simp: p_lacks_eq_def flag_value_def flag_last_def sc list_index_append nth_append)
    next
      case False
      with lt have last: "list_index ''-p'' toks = length toks - 1"
        and suc: "Suc (list_index ''-p'' toks) = length toks" by simp_all
      have "(toks @ [?t]) ! Suc (list_index ''-p'' toks) = ?t"
        unfolding suc by (rule nth_append_length)
      moreover have "flag_value ''-p'' toks = None"
        using last by (simp add: flag_value_def)
      moreover have "flag_value ''-p'' sc = Some ((toks @ [?t]) ! Suc (list_index ''-p'' toks))"
        using \<open>''-p'' \<in> set toks\<close> lt by (simp add: flag_value_def sc list_index_append)
      moreover have "flag_last ''-p'' toks"
        using \<open>''-p'' \<in> set toks\<close> last by (simp add: flag_last_def)
      ultimately show ?thesis
        using eq by (simp add: p_lacks_eq_def)
    qed
  qed
qed

lemma edit_split_cmd_Inl:
  "edit_split_cmd toks g fixed = (lg, Inl e) \<longleftrightarrow>
     handle_o toks g = (lg, Inl e) \<or>
     (\<exists>lg1 lg2 sc. handle_o toks g = (lg1, Inr sc) \<and> handle_p sc fixed = (lg2, Inl e) \<and> lg = lg1 @ lg2)"
  by (auto simp: edit_split_cmd_def split: prod.splits sum.splits)

lemma handle_o_cases:
  obtains lg where "handle_o toks g = (lg, Inl (SystemExit 1))"
  | lg sc where "handle_o toks g = (lg, Inr sc)"
  by (cases "handle_o toks g"; cases "snd (handle_o toks g)") (auto simp: handle_o_Inl)

lemma edit_split_cmd_only_exit:
  "edit_split_cmd toks g fixed = (lg, Inl e) \<Longrightarrow> e = SystemExit 1"
  by (auto simp: edit_split_cmd_Inl handle_o_Inl handle_p_Inl)

lemma edit_split_cmd_exit_iff:
  "(\<exists>lg. edit_split_cmd toks g fixed = (lg, Inl (SystemExit 1))) \<longleftrightarrow>
     flag_last ''-o'' toks \<or> o_lacks_ext toks \<or> p_lacks_eq toks \<or>
     (flag_last ''-p'' toks \<and> (''-o'' \<in> set toks \<or> CHR ''='' \<notin> set g))"
proof (cases rule: handle_o_cases[of toks g])
  case (1 lg)
  then have "flag_last ''-o'' toks \<or> o_lacks_ext toks" by (auto simp: handle_o_Inl)
  moreover from 1 have "edit_split_cmd toks g fixed = (lg, Inl (SystemExit 1))"
    by (simp add: edit_split_cmd_Inl)
  ultimately show ?thesis by blast
next
  case (2 lg1 sc)
  then have no: "\<not> flag_last ''-o'' toks" "\<not> o_lacks_ext toks"
    by (auto simp: handle_o_Inr flag_last_def o_lacks_ext_def flag_value_def)
  have ex: "(\<exists>lg. edit_split_cmd toks g fixed = (lg, Inl (SystemExit 1))) \<longleftrightarrow>
            flag_last ''-p'' sc \<or> p_lacks_eq sc"
    using 2 by (auto simp: edit_split_cmd_Inl handle_p_Inl)
  show ?thesis
  proof (cases "''-o'' \<in> set toks")
    case True
    from handle_o_present_keeps_p[OF 2 True]
    have "flag_last ''-p'' sc = flag_last ''-p'' toks" "p_lacks_eq sc = p_lacks_eq toks"
      by (simp_all add: p_lacks_eq_def)
    with ex no True show ?thesis by blast
  next
    case False
    from handle_o_absent_p[OF 2 False] ex no False show ?thesis by blast
  qed
qed

lemma edit_split_cmd_exit_malformed:
  "(\<exists>lg. edit_split_cmd toks g fixed = (lg, Inl (SystemExit 1))) \<longleftrightarrow>
     malformed toks \<and> \<not> (flag_last ''-p'' toks \<and> ''-o'' \<notin> set toks \<and> CHR ''='' \<in> set g)"
proof -
  have "\<not> flag_last ''-o'' toks" "\<not> o_lacks_ext toks" if "''-o'' \<notin> set toks"
    using that by (simp_all add: flag_last_def o_lacks_ext_def flag_value_def)
  moreover have "\<not> p_lacks_eq toks" if "flag_last ''-p'' toks"
    using that by (simp add: flag_last_def p_lacks_eq_def flag_value_def)
  ultimately show ?thesis
    unfolding edit_split_cmd_exit_iff malformed_def by blast
qed

lemma edit_cmd_exit_iff:
  "(\<exists>lg. edit_cmd cmd g fixed = (lg, Inl (SystemExit 1))) \<longleftrightarrow>
     (\<exists>lg. edit_split_cmd (py_split cmd) g fixed = (lg, Inl (SystemExit 1)))"
  by (auto simp: edit_cmd_def split: prod.splits sum.splits)

lemma edit_split_cmd_returns:
  assumes "\<not> malformed toks"
  shows "\<exists>lg toks'. edit_split_cmd toks g fixed = (lg, Inr toks')"
proof -
  obtain lg r where r: "edit_split_cmd toks g fixed = (lg, r)"
    by (cases "edit_split_cmd toks g fixed")
  show ?thesis
  proof (cases r)
    case (Inl e)
    with r have "e = SystemExit 1" by (auto dest: edit_split_cmd_only_exit)
    with r Inl have "\<exists>lg. edit_split_cmd toks g fixed = (lg, Inl (SystemExit 1))" by auto
    with assms show ?thesis by (simp add: edit_split_cmd_exit_malformed)
  next
    case (Inr toks')
    with r show ?thesis by auto
  qed
qed

lemma edit_cmd_returns:
  assumes "\<not> malformed (py_split cmd)"
  shows "\<exists>lg cmd'. edit_cmd cmd g fixed = (lg, Inr cmd')"
  using edit_split_cmd_returns[OF assms, of g fixed] by (auto simp: edit_cmd_def)

text \<open>
  Claim C5 (the code departs from it). By \<open>edit_split_cmd_exit_malformed\<close>,
  \<open>edit_cmd\<close> exits with code 1 exactly on the malformed commands, with one exception: a
  command with no \<open>-o\<close> whose last token is \<open>-p\<close>, when the group name contains \<open>=\<close>.
  The default \<open>-o\<close> token is appended before the \<open>-p\<close> block looks whether \<open>-p\<close> is
  last, so that token is taken for the value of \<open>-p\<close>. Here the baseline \<open>fit -p\<close> ends
  in \<open>-p\<close>, and with the group name \<open>a=b\<close> the run is not ended: a command is returned.
\<close>

theorem edit_cmd_trailing_p_returns:
  "flag_last ''-p'' (py_split ''fit -p'') \<and>
   edit_cmd ''fit -p'' ''a=b'' ''x=1'' = ([WarnMissingO], Inr ''fit -p -o a=b.root,x=1'')"
  by code_simp


subsection \<open>The derived command: its output name and its parameters\<close>

text \<open>
  A token list whose tokens are non-empty and free of whitespace is read back from the
  joined string, whatever is appended to it: the value of a flag found in such a prefix
  is the value that the flag has in the split of the string.
\<close>

lemma flag_value_append_list:
  "flag \<in> set A \<Longrightarrow> Suc (list_index flag A) < length A \<Longrightarrow>
   flag_value flag (A @ Y) = flag_value flag A"
  by (simp add: flag_value_def list_index_append nth_append)

lemma resplit_prefix:
  assumes "\<forall>t \<in> set A. no_space t \<and> t \<noteq> []"
  shows "py_split (join '' '' (A @ B)) = A @ concat (map py_split B)"
proof -
  from assms have "concat (map py_split A) = A"
    by (induction A) (simp_all add: py_split_token)
  then show ?thesis by (simp add: py_split_join)
qed

lemma flag_value_resplit:
  assumes good: "\<forall>t \<in> set A. no_space t \<and> t \<noteq> []"
    and fv: "flag_value flag A = Some x"
  shows "flag_value flag (py_split (join '' '' (A @ B))) = Some x"
proof -
  from fv have "flag \<in> set A" "Suc (list_index flag A) < length A"
    by (simp_all add: flag_value_Some_iff)
  then have "flag_value flag (A @ concat (map py_split B)) = flag_value flag A"
    by (rule flag_value_append_list)
  with fv resplit_prefix[OF good, of B] show ?thesis by simp
qed

lemma no_space_literals:
  "no_space ''_''" "no_space ''.root''" "no_space '',''"
  by (simp_all add: no_space_def is_space_def whitespace_def)

lemma handle_o_present_good:
  assumes ho: "handle_o toks g = (lg1, Inr sc)" and oin: "''-o'' \<in> set toks"
    and good: "\<forall>t \<in> set toks. no_space t \<and> t \<noteq> []" and g: "no_space g"
  shows "\<forall>t \<in> set sc. no_space t \<and> t \<noteq> []"
proof -
  from ho oin obtain v stem where fv: "flag_value ''-o'' toks = Some v"
    and st: "splitext v = (stem, ''.root'')"
    and sc: "sc = toks[Suc (list_index ''-o'' toks) := stem @ ''_'' @ g @ ''.root'']"
    by (auto simp: handle_o_Inr)
  from fv have "v \<in> set toks" by (auto simp: flag_value_Some_iff)
  with good have "no_space v" by blast
  moreover from st have "v = stem @ ''.root''" by (rule splitext_append)
  ultimately have "no_space stem" by (simp add: no_space_append)
  with g have ny: "no_space (stem @ ''_'' @ g @ ''.root'')"
    by (auto simp: no_space_def is_space_def whitespace_def)
  have "stem @ ''_'' @ g @ ''.root'' \<noteq> []" by simp
  from good_update[OF good ny this] sc show ?thesis by simp
qed


lemma not_malformed_I:
  assumes o: "''-o'' \<notin> set toks \<or>
              (\<exists>v stem. flag_value ''-o'' toks = Some v \<and> splitext v = (stem, ''.root''))"
    and p: "''-p'' \<notin> set toks \<or>
              (\<exists>pv. flag_value ''-p'' toks = Some pv \<and> CHR ''='' \<in> set pv)"
  shows "\<not> malformed toks"
proof -
  from o have "\<not> flag_last ''-o'' toks" "\<not> o_lacks_ext toks"
    by (auto simp: flag_last_def o_lacks_ext_def flag_value_def split: if_splits)
  moreover from p have "\<not> flag_last ''-p'' toks" "\<not> p_lacks_eq toks"
    by (auto simp: flag_last_def p_lacks_eq_def flag_value_def split: if_splits)
  ultimately show ?thesis by (simp add: malformed_def)
qed

text \<open>
  Claim C2, as amended. Take a baseline command whose first \<open>-o\<close> is followed by a value
  \<open>v\<close> that \<open>os.path.splitext\<close> splits into a stem and the extension \<open>.root\<close>, and
  whose \<open>-p\<close> is absent or followed by a value containing \<open>=\<close>. Then for every group
  name \<open>g\<close> and fixed-parameter string, \<open>edit_cmd\<close> returns a derived command, the
  joined token list of \<open>edit_split_cmd\<close>; \<open>v\<close> is the stem followed by \<open>.root\<close>, and
  in that token list the value of \<open>-o\<close> is the stem, then \<open>_g\<close>, then \<open>.root\<close>: the
  insertion of \<open>_g\<close> before the extension and nothing else. When neither the group name
  nor the fixed-parameter string contains whitespace, this is also the value of \<open>-o\<close>
  read from the derived command string.
\<close>

theorem edit_cmd_output_name:
  assumes o: "flag_value ''-o'' (py_split cmd) = Some v"
    and ext: "splitext v = (stem, ''.root'')"
    and p: "''-p'' \<notin> set (py_split cmd) \<or>
            (\<exists>pv. flag_value ''-p'' (py_split cmd) = Some pv \<and> CHR ''='' \<in> set pv)"
  shows "\<exists>lg toks'.
           edit_split_cmd (py_split cmd) g fixed = (lg, Inr toks') \<and>
           edit_cmd cmd g fixed = (lg, Inr (join '' '' toks')) \<and>
           v = stem @ ''.root'' \<and>
           flag_value ''-o'' toks' = Some (stem @ ''_'' @ g @ ''.root'') \<and>
           (no_space g \<and> no_space fixed \<longrightarrow>
              flag_value ''-o'' (py_split (join '' '' toks')) = Some (stem @ ''_'' @ g @ ''.root''))"
proof -
  let ?toks = "py_split cmd" and ?new = "stem @ ''_'' @ g @ ''.root''"
  from o ext have "''-o'' \<notin> set ?toks \<or>
      (\<exists>v stem. flag_value ''-o'' ?toks = Some v \<and> splitext v = (stem, ''.root''))" by blast
  from not_malformed_I[OF this p] have "\<not> malformed ?toks" .
  from edit_split_cmd_returns[OF this, of g fixed] obtain lg toks' where
    e: "edit_split_cmd ?toks g fixed = (lg, Inr toks')" by blast
  then have r: "edit_cmd cmd g fixed = (lg, Inr (join '' '' toks'))"
    by (simp add: edit_cmd_def)
  from e obtain lg1 lg2 sc where ho: "handle_o ?toks g = (lg1, Inr sc)"
    and hp: "handle_p sc fixed = (lg2, Inr toks')"
    by (auto simp: edit_split_cmd_Inr)
  from handle_o_gives_value[OF ho o] ext have fsc: "flag_value ''-o'' sc = Some ?new" by auto
  from handle_p_keeps_o[OF hp fsc] have ft: "flag_value ''-o'' toks' = Some ?new" .
  from ext have vs: "v = stem @ ''.root''" by (rule splitext_append)
  from o have oin: "''-o'' \<in> set ?toks" by (simp add: flag_value_Some_iff)
  have str: "flag_value ''-o'' (py_split (join '' '' toks')) = Some ?new"
    if g: "no_space g" and f: "no_space fixed"
  proof (cases "''-p'' \<in> set ?toks")
    case True
    from edit_cmd_resplit[OF r g f oin True] e have "py_split (join '' '' toks') = toks'" by simp
    with ft show ?thesis by simp
  next
    case False
    have good: "\<forall>t \<in> set ?toks. no_space t \<and> t \<noteq> []" using py_split_tokens by blast
    from handle_o_present_good[OF ho oin good g] have gsc: "\<forall>t \<in> set sc. no_space t \<and> t \<noteq> []" .
    from ho oin have "sc = ?toks[Suc (list_index ''-o'' ?toks) := ?new]"
      using o ext by (auto simp: handle_o_Inr)
    moreover have "?new \<noteq> ''-p''"
      by (cases stem; cases g) (auto simp: Cons_eq_append_conv)
    ultimately have "''-p'' \<notin> set sc" using False by (simp add: notin_set_update)
    with hp have "toks' = sc @ [''-p '' @ fixed]" by (auto simp: handle_p_Inr flag_value_def)
    with flag_value_resplit[OF gsc fsc, of "[''-p '' @ fixed]"] show ?thesis by simp
  qed
  from e r vs ft str show ?thesis by blast
qed

theorem edit_cmd_output_name_witness:
  "flag_value ''-o'' (py_split ''fit -o out.root -p mu=1_0_2'') = Some ''out.root'' \<and>
   splitext ''out.root'' = (''out'', ''.root'') \<and>
   (\<exists>pv. flag_value ''-p'' (py_split ''fit -o out.root -p mu=1_0_2'') = Some pv \<and>
         CHR ''='' \<in> set pv) \<and>
   no_space ''sysA'' \<and> no_space ''alpha_a_1=0.5'' \<and>
   (\<exists>lg toks'.
      edit_cmd ''fit -o out.root -p mu=1_0_2'' ''sysA'' ''alpha_a_1=0.5''
        = (lg, Inr (join '' '' toks')) \<and>
      flag_value ''-o'' toks' = Some ''out_sysA.root'' \<and>
      flag_value ''-o'' (py_split (join '' '' toks')) = Some ''out_sysA.root'')"
proof -
  let ?cmd = "''fit -o out.root -p mu=1_0_2''"
  have o: "flag_value ''-o'' (py_split ?cmd) = Some ''out.root''" by code_simp
  have x: "splitext ''out.root'' = (''out'', ''.root'')" by code_simp
  have pv: "flag_value ''-p'' (py_split ?cmd) = Some ''mu=1_0_2''" by code_simp
  have eq: "CHR ''='' \<in> set ''mu=1_0_2''" by simp
  from pv eq have p: "\<exists>pv. flag_value ''-p'' (py_split ?cmd) = Some pv \<and> CHR ''='' \<in> set pv"
    by (intro exI conjI)
  have g: "no_space ''sysA''" by (simp add: no_space_def is_space_def whitespace_def)
  have f: "no_space ''alpha_a_1=0.5''" by (simp add: no_space_def is_space_def whitespace_def)
  from edit_cmd_output_name[OF o x disjI2[OF p], of "''sysA''" "''alpha_a_1=0.5''"]
  obtain lg toks' where
    r: "edit_cmd ?cmd ''sysA'' ''alpha_a_1=0.5'' = (lg, Inr (join '' '' toks'))"
    and t: "flag_value ''-o'' toks' = Some (''out'' @ ''_'' @ ''sysA'' @ ''.root'')"
    and s: "no_space ''sysA'' \<and> no_space ''alpha_a_1=0.5'' \<longrightarrow>
            flag_value ''-o'' (py_split (join '' '' toks'))
              = Some (''out'' @ ''_'' @ ''sysA'' @ ''.root'')"
    by blast
  from s g f have s': "flag_value ''-o'' (py_split (join '' '' toks'))
              = Some (''out'' @ ''_'' @ ''sysA'' @ ''.root'')" by blast
  have n: "''out'' @ ''_'' @ ''sysA'' @ ''.root'' = ''out_sysA.root''" by simp
  from r t s' have e: "\<exists>lg toks'.
      edit_cmd ?cmd ''sysA'' ''alpha_a_1=0.5'' = (lg, Inr (join '' '' toks')) \<and>
      flag_value ''-o'' toks' = Some ''out_sysA.root'' \<and>
      flag_value ''-o'' (py_split (join '' '' toks')) = Some ''out_sysA.root''"
    unfolding n by (intro exI conjI)
  show ?thesis by (intro conjI) (rule o, rule x, rule p, rule g, rule f, rule e)
qed

text \<open>
  The claim as first worded fails in three ways. The value \<open>.root\<close> ends in \<open>.root\<close>,
  but \<open>os.path.splitext\<close> gives it no extension (a leading dot is part of the stem),
  and \<open>edit_cmd\<close> exits with code 1. The command \<open>fit -o out.root -p mu\<close> has a good
  \<open>-o\<close> value, but its \<open>-p\<close> value has no \<open>=\<close>, and \<open>edit_cmd\<close> exits with code 1:
  there is no derived command. And with the group name \<open>Jet energy\<close> the derived command
  is \<open>fit -o out_Jet energy.root -p mu=1,a=1\<close>, where the value that follows \<open>-o\<close>
  is \<open>out_Jet\<close>.
\<close>

theorem edit_cmd_output_name_rejected:
  "flag_value ''-o'' (py_split ''fit -o .root -p mu=1_0_2'') = Some ''.root'' \<and>
   suffix ''.root'' ''.root'' \<and>
   edit_cmd ''fit -o .root -p mu=1_0_2'' ''sysA'' ''a=1'' = ([ErrOExt], Inl (SystemExit 1)) \<and>
   flag_value ''-o'' (py_split ''fit -o out.root -p mu'') = Some ''out.root'' \<and>
   suffix ''.root'' ''out.root'' \<and>
   edit_cmd ''fit -o out.root -p mu'' ''sysA'' ''a=1'' = ([ErrPFormat], Inl (SystemExit 1)) \<and>
   edit_cmd ''fit -o out.root -p mu=1'' ''Jet energy'' ''a=1''
     = ([], Inr ''fit -o out_Jet energy.root -p mu=1,a=1'') \<and>
   flag_value ''-o'' (py_split ''fit -o out_Jet energy.root -p mu=1,a=1'') = Some ''out_Jet''"
proof -
  have a1: "flag_value ''-o'' (py_split ''fit -o .root -p mu=1_0_2'') = Some ''.root''"
    by code_simp
  have a2: "suffix ''.root'' ''.root''" by simp
  have a3: "edit_cmd ''fit -o .root -p mu=1_0_2'' ''sysA'' ''a=1'' = ([ErrOExt], Inl (SystemExit 1))"
    by code_simp
  have b1: "flag_value ''-o'' (py_split ''fit -o out.root -p mu'') = Some ''out.root''"
    by code_simp
  have b2: "suffix ''.root'' ''out.root''" by (rule suffixI[of _ "''out''"]) simp
  have b3: "edit_cmd ''fit -o out.root -p mu'' ''sysA'' ''a=1'' = ([ErrPFormat], Inl (SystemExit 1))"
    by code_simp
  have c1: "edit_cmd ''fit -o out.root -p mu=1'' ''Jet energy'' ''a=1''
     = ([], Inr ''fit -o out_Jet energy.root -p mu=1,a=1'')"
    by code_simp
  have c2: "flag_value ''-o'' (py_split ''fit -o out_Jet energy.root -p mu=1,a=1'') = Some ''out_Jet''"
    by code_simp
  show ?thesis by (intro conjI) (rule a1, rule a2, rule a3, rule b1, rule b2, rule b3, rule c1, rule c2)
qed

text \<open>
  \<open>generate_alt_cmds\<close> calls \<open>edit_cmd\<close> once for each group, with the string of
  \<open>fixed_systs\<close> for that group; when every call returns, so does the loop, with the
  derived commands in the order of the groups.
\<close>

lemma fixed_systs_value:
  assumes "dict_wf info"
  shows "fixed_systs fmt systs info =
           (fixed_systs_warnings systs info, Inr (fixed_systs_spec fmt systs info))"
  using fixed_systs_loop_spec[OF assms, of fmt systs "[]" "[]"]
  by (simp add: fixed_systs_def fixed_systs_spec_def)

lemma edit_cmd_p_value:
  assumes p: "flag_value ''-p'' (py_split cmd) = Some pv"
    and eq: "CHR ''='' \<in> set pv"
    and o: "''-o'' \<notin> set (py_split cmd) \<or>
            (\<exists>v stem. flag_value ''-o'' (py_split cmd) = Some v \<and> splitext v = (stem, ''.root''))"
  shows "\<exists>lg toks'.
           edit_split_cmd (py_split cmd) g fixed = (lg, Inr toks') \<and>
           edit_cmd cmd g fixed = (lg, Inr (join '' '' toks')) \<and>
           flag_value ''-p'' toks' = Some (pv @ '','' @ fixed) \<and>
           (no_space g \<and> no_space fixed \<longrightarrow>
              flag_value ''-p'' (py_split (join '' '' toks')) = Some (pv @ '','' @ fixed))"
proof -
  let ?toks = "py_split cmd"
  define y where "y = pv @ '','' @ fixed"
  from p eq have "''-p'' \<notin> set ?toks \<or>
      (\<exists>pv. flag_value ''-p'' ?toks = Some pv \<and> CHR ''='' \<in> set pv)" by blast
  from not_malformed_I[OF o this] have "\<not> malformed ?toks" .
  from edit_split_cmd_returns[OF this, of g fixed] obtain lg toks' where
    e: "edit_split_cmd ?toks g fixed = (lg, Inr toks')" by blast
  then have r: "edit_cmd cmd g fixed = (lg, Inr (join '' '' toks'))"
    by (simp add: edit_cmd_def)
  from e obtain lg1 lg2 sc where ho: "handle_o ?toks g = (lg1, Inr sc)"
    and hp: "handle_p sc fixed = (lg2, Inr toks')"
    by (auto simp: edit_split_cmd_Inr)
  from handle_o_keeps_p[OF ho p] have psc: "flag_value ''-p'' sc = Some pv" .
  from handle_p_gives_value[OF hp psc] have ft: "flag_value ''-p'' toks' = Some y"
    by (simp add: y_def)
  from p have pin: "''-p'' \<in> set ?toks" and plt: "Suc (list_index ''-p'' ?toks) < length ?toks"
    and pvn: "pv = ?toks ! Suc (list_index ''-p'' ?toks)"
    by (simp_all add: flag_value_Some_iff)
  have good: "\<forall>t \<in> set ?toks. no_space t \<and> t \<noteq> []" using py_split_tokens by blast
  have str: "flag_value ''-p'' (py_split (join '' '' toks')) = Some y"
    if g: "no_space g" and f: "no_space fixed"
  proof (cases "''-o'' \<in> set ?toks")
    case True
    from edit_cmd_resplit[OF r g f True pin] e have "py_split (join '' '' toks') = toks'" by simp
    with ft show ?thesis by simp
  next
    case False
    define t where "t = ''-o '' @ g @ ''.root''"
    from ho False have sc: "sc = ?toks @ [t]"
      by (auto simp: handle_o_Inr flag_value_def t_def)
    have ip: "list_index ''-p'' sc = list_index ''-p'' ?toks"
      unfolding sc using pin by (rule list_index_append)
    from psc have "''-p'' \<in> set sc" by (simp add: flag_value_Some_iff)
    with hp psc have "toks' = sc[Suc (list_index ''-p'' sc) := y]"
      by (auto simp: handle_p_Inr y_def)
    with ip sc plt have t': "toks' = ?toks[Suc (list_index ''-p'' ?toks) := y] @ [t]"
      by (simp add: list_update_append1)
    from pvn plt good have "no_space pv" by (metis nth_mem)
    with f have ny: "no_space y"
      unfolding y_def by (auto simp: no_space_def is_space_def whitespace_def)
    have yne: "y \<noteq> []" by (simp add: y_def)
    from good_update[OF good ny yne]
    have gA: "\<forall>t \<in> set (?toks[Suc (list_index ''-p'' ?toks) := y]). no_space t \<and> t \<noteq> []" .
    have "CHR ''='' \<in> set y" "CHR ''='' \<notin> set ''-p''" using eq by (simp_all add: y_def)
    then have "y \<noteq> ''-p''" by metis
    from flag_value_update_value[OF pin plt this]
    have fA: "flag_value ''-p'' (?toks[Suc (list_index ''-p'' ?toks) := y]) = Some y" .
    from flag_value_resplit[OF gA fA, of "[t]"] t' show ?thesis by simp
  qed
  from e r ft str show ?thesis unfolding y_def by blast
qed

lemma generate_alt_cmds_loop_each:
  assumes wf: "dict_wf NPinfo"
    and ec: "\<And>g fixed. \<exists>lg c. edit_cmd cmd g fixed = (lg, Inr c) \<and> Q g fixed c"
  shows "\<exists>lg' cmds. generate_alt_cmds_loop fmt cmd NPinfo groups alt_cmds lg
                      = (lg', Inr (alt_cmds @ cmds)) \<and>
           list_all2 (\<lambda>gs c. Q (fst gs) (fixed_systs_spec fmt (snd gs) NPinfo) c) groups cmds"
proof (induction groups arbitrary: alt_cmds lg)
  case Nil
  show ?case by simp
next
  case (Cons a groups)
  obtain gname gsysts where a: "a = (gname, gsysts)" by (cases a)
  define F where "F = fixed_systs_spec fmt gsysts NPinfo"
  have fs: "fixed_systs fmt gsysts NPinfo = (fixed_systs_warnings gsysts NPinfo, Inr F)"
    unfolding F_def using wf by (rule fixed_systs_value)
  from ec[of gname F] obtain lg2 c where c: "edit_cmd cmd gname F = (lg2, Inr c)"
    and q: "Q gname F c" by blast
  from Cons.IH[of "alt_cmds @ [c]" "lg @ fixed_systs_warnings gsysts NPinfo @ lg2"]
  obtain lg' cmds where
    l: "generate_alt_cmds_loop fmt cmd NPinfo groups (alt_cmds @ [c])
          (lg @ fixed_systs_warnings gsysts NPinfo @ lg2) = (lg', Inr ((alt_cmds @ [c]) @ cmds))"
    and all: "list_all2 (\<lambda>gs c. Q (fst gs) (fixed_systs_spec fmt (snd gs) NPinfo) c) groups cmds"
    by blast
  have "generate_alt_cmds_loop fmt cmd NPinfo (a # groups) alt_cmds lg
          = (lg', Inr (alt_cmds @ (c # cmds)))"
    unfolding a by (simp add: fs c l)
  moreover have "list_all2 (\<lambda>gs c. Q (fst gs) (fixed_systs_spec fmt (snd gs) NPinfo) c)
                   (a # groups) (c # cmds)"
    using all q by (simp add: a F_def)
  ultimately show ?case by blast
qed

lemma generate_alt_cmds_each:
  assumes p: "flag_value ''-p'' (py_split cmd) = Some pv"
    and eq: "CHR ''='' \<in> set pv"
    and o: "''-o'' \<notin> set (py_split cmd) \<or>
            (\<exists>v stem. flag_value ''-o'' (py_split cmd) = Some v \<and> splitext v = (stem, ''.root''))"
    and wf: "dict_wf NPinfo"
  shows "\<exists>lg cmds. generate_alt_cmds fmt cmd groups NPinfo = (lg, Inr cmds) \<and>
           list_all2 (\<lambda>(g, systs) c. \<exists>lg' toks'.
               edit_split_cmd (py_split cmd) g (fixed_systs_spec fmt systs NPinfo) = (lg', Inr toks') \<and>
               c = join '' '' toks' \<and>
               flag_value ''-p'' toks' = Some (pv @ '','' @ fixed_systs_spec fmt systs NPinfo) \<and>
               (no_space g \<and> no_space (fixed_systs_spec fmt systs NPinfo) \<longrightarrow>
                  flag_value ''-p'' (py_split c)
                    = Some (pv @ '','' @ fixed_systs_spec fmt systs NPinfo)))
             groups cmds"
proof -
  define Q where "Q = (\<lambda>g fixed c. \<exists>lg' toks'.
               edit_split_cmd (py_split cmd) g fixed = (lg', Inr toks') \<and>
               c = join '' '' toks' \<and>
               flag_value ''-p'' toks' = Some (pv @ '','' @ fixed) \<and>
               (no_space g \<and> no_space fixed \<longrightarrow>
                  flag_value ''-p'' (py_split c) = Some (pv @ '','' @ fixed)))"
  have ec: "\<exists>lg c. edit_cmd cmd g fixed = (lg, Inr c) \<and> Q g fixed c" for g fixed
    using edit_cmd_p_value[OF p eq o, of g fixed] unfolding Q_def by blast
  from generate_alt_cmds_loop_each[of NPinfo cmd Q fmt groups "[]" "[]", OF wf ec]
  obtain lg cmds where l: "generate_alt_cmds_loop fmt cmd NPinfo groups [] [] = (lg, Inr cmds)"
    and all: "list_all2 (\<lambda>gs c. Q (fst gs) (fixed_systs_spec fmt (snd gs) NPinfo) c) groups cmds"
    by auto
  have eqp: "(\<lambda>gs c. Q (fst gs) (fixed_systs_spec fmt (snd gs) NPinfo) c)
           = (\<lambda>(g, systs) c. Q g (fixed_systs_spec fmt systs NPinfo) c)"
    by (simp add: fun_eq_iff case_prod_unfold)
  from l all show ?thesis
    unfolding generate_alt_cmds_def eqp unfolding Q_def by blast
qed

text \<open>
  Claim C3, as amended. Take a baseline command whose first \<open>-p\<close> is followed by a value
  \<open>pv\<close> containing \<open>=\<close>, and whose \<open>-o\<close> is absent or followed by a value that
  \<open>os.path.splitext\<close> splits into a stem and the extension \<open>.root\<close>. Then for every
  group name and fixed-parameter string, \<open>edit_cmd\<close> returns a derived command, the
  joined token list of \<open>edit_split_cmd\<close>, and in that token list the value of \<open>-p\<close> is
  \<open>pv\<close>, a comma, and the fixed-parameter string; when neither the group name nor the
  fixed-parameter string contains whitespace, this is also the value of \<open>-p\<close> read from
  the derived command string. For a snapshot with distinct names, \<open>generate_alt_cmds\<close>
  returns one such command for each group, in the order of the groups, the fixed-parameter
  string of a group being that of \<open>fixed_systs_spec\<close>. And the scenario of the
  specification: with a float rendering that writes one half as \<open>0.5\<close>, the baseline
  \<open>fit -o out.root -p mu=1_0_2\<close>, the group \<open>sysA\<close> with the substring \<open>alpha_a\<close> and
  the snapshot \<open>alpha_a_1 = 0.5\<close> give the single command
  \<open>fit -o out_sysA.root -p mu=1_0_2,alpha_a_1=0.5\<close>.
\<close>

theorem edit_cmd_appends_fixed:
  "(\<forall>cmd pv.
      flag_value ''-p'' (py_split cmd) = Some pv \<and> CHR ''='' \<in> set pv \<and>
      (''-o'' \<notin> set (py_split cmd) \<or>
       (\<exists>v stem. flag_value ''-o'' (py_split cmd) = Some v \<and> splitext v = (stem, ''.root'')))
      \<longrightarrow>
      (\<forall>g fixed. \<exists>lg toks'.
          edit_split_cmd (py_split cmd) g fixed = (lg, Inr toks') \<and>
          edit_cmd cmd g fixed = (lg, Inr (join '' '' toks')) \<and>
          flag_value ''-p'' toks' = Some (pv @ '','' @ fixed) \<and>
          (no_space g \<and> no_space fixed \<longrightarrow>
             flag_value ''-p'' (py_split (join '' '' toks')) = Some (pv @ '','' @ fixed))) \<and>
      (\<forall>fmt groups NPinfo. dict_wf NPinfo \<longrightarrow>
          (\<exists>lg cmds. generate_alt_cmds (fmt :: 'v \<Rightarrow> string) cmd groups NPinfo = (lg, Inr cmds) \<and>
             list_all2 (\<lambda>(g, systs) c. \<exists>lg' toks'.
                 edit_split_cmd (py_split cmd) g (fixed_systs_spec fmt systs NPinfo)
                   = (lg', Inr toks') \<and>
                 c = join '' '' toks' \<and>
                 flag_value ''-p'' toks' = Some (pv @ '','' @ fixed_systs_spec fmt systs NPinfo) \<and>
                 (no_space g \<and> no_space (fixed_systs_spec fmt systs NPinfo) \<longrightarrow>
                    flag_value ''-p'' (py_split c)
                      = Some (pv @ '','' @ fixed_systs_spec fmt systs NPinfo)))
               groups cmds))) \<and>
   (\<forall>fmt. fmt (1 / 2 :: real) = ''0.5'' \<longrightarrow>
      generate_alt_cmds fmt ''fit -o out.root -p mu=1_0_2'' [(''sysA'', [''alpha_a''])]
        [(''alpha_a_1'', 1 / 2)]
      = ([], Inr [''fit -o out_sysA.root -p mu=1_0_2,alpha_a_1=0.5'']))"
proof (intro conjI allI impI)
  fix cmd pv g fixed
  assume a: "flag_value ''-p'' (py_split cmd) = Some pv \<and> CHR ''='' \<in> set pv \<and>
      (''-o'' \<notin> set (py_split cmd) \<or>
       (\<exists>v stem. flag_value ''-o'' (py_split cmd) = Some v \<and> splitext v = (stem, ''.root'')))"
  from a have p: "flag_value ''-p'' (py_split cmd) = Some pv" by (rule conjunct1)
  from a have eq: "CHR ''='' \<in> set pv" by (rule conjunct2[THEN conjunct1])
  from a have o: "''-o'' \<notin> set (py_split cmd) \<or>
       (\<exists>v stem. flag_value ''-o'' (py_split cmd) = Some v \<and> splitext v = (stem, ''.root''))"
    by (rule conjunct2[THEN conjunct2])
  show "\<exists>lg toks'.
          edit_split_cmd (py_split cmd) g fixed = (lg, Inr toks') \<and>
          edit_cmd cmd g fixed = (lg, Inr (join '' '' toks')) \<and>
          flag_value ''-p'' toks' = Some (pv @ '','' @ fixed) \<and>
          (no_space g \<and> no_space fixed \<longrightarrow>
             flag_value ''-p'' (py_split (join '' '' toks')) = Some (pv @ '','' @ fixed))"
    using p eq o by (rule edit_cmd_p_value)
next
  fix cmd pv and fmt :: "'v \<Rightarrow> string" and groups and NPinfo :: "(string, 'v) dict"
  assume a: "flag_value ''-p'' (py_split cmd) = Some pv \<and> CHR ''='' \<in> set pv \<and>
      (''-o'' \<notin> set (py_split cmd) \<or>
       (\<exists>v stem. flag_value ''-o'' (py_split cmd) = Some v \<and> splitext v = (stem, ''.root'')))"
    and wf: "dict_wf NPinfo"
  from a have p: "flag_value ''-p'' (py_split cmd) = Some pv" by (rule conjunct1)
  from a have eq: "CHR ''='' \<in> set pv" by (rule conjunct2[THEN conjunct1])
  from a have o: "''-o'' \<notin> set (py_split cmd) \<or>
       (\<exists>v stem. flag_value ''-o'' (py_split cmd) = Some v \<and> splitext v = (stem, ''.root''))"
    by (rule conjunct2[THEN conjunct2])
  show "\<exists>lg cmds. generate_alt_cmds fmt cmd groups NPinfo = (lg, Inr cmds) \<and>
             list_all2 (\<lambda>(g, systs) c. \<exists>lg' toks'.
                 edit_split_cmd (py_split cmd) g (fixed_systs_spec fmt systs NPinfo)
                   = (lg', Inr toks') \<and>
                 c = join '' '' toks' \<and>
                 flag_value ''-p'' toks' = Some (pv @ '','' @ fixed_systs_spec fmt systs NPinfo) \<and>
                 (no_space g \<and> no_space (fixed_systs_spec fmt systs NPinfo) \<longrightarrow>
                    flag_value ''-p'' (py_split c)
                      = Some (pv @ '','' @ fixed_systs_spec fmt systs NPinfo)))
               groups cmds"
    using p eq o wf by (rule generate_alt_cmds_each)
next
  fix fmt :: "real \<Rightarrow> string"
  assume "fmt (1 / 2) = ''0.5''"
  then show "generate_alt_cmds fmt ''fit -o out.root -p mu=1_0_2'' [(''sysA'', [''alpha_a''])]
        [(''alpha_a_1'', 1 / 2)]
      = ([], Inr [''fit -o out_sysA.root -p mu=1_0_2,alpha_a_1=0.5''])"
    by (rule generate_alt_cmds_scenario)
qed

theorem edit_cmd_appends_fixed_witness:
  "flag_value ''-p'' (py_split ''fit -o out.root -p mu=1_0_2'') = Some ''mu=1_0_2'' \<and>
   CHR ''='' \<in> set ''mu=1_0_2'' \<and>
   (\<exists>v stem. flag_value ''-o'' (py_split ''fit -o out.root -p mu=1_0_2'') = Some v \<and>
      splitext v = (stem, ''.root'')) \<and>
   dict_wf [(''alpha_a_1'', 1 / 2 :: real)] \<and>
   no_space ''sysA'' \<and>
   fixed_systs_spec (\<lambda>x :: real. if x = 1 / 2 then ''0.5'' else ''1.0'') [''alpha_a'']
     [(''alpha_a_1'', 1 / 2)] = ''alpha_a_1=0.5'' \<and>
   no_space ''alpha_a_1=0.5'' \<and>
   generate_alt_cmds (\<lambda>x :: real. if x = 1 / 2 then ''0.5'' else ''1.0'')
     ''fit -o out.root -p mu=1_0_2'' [(''sysA'', [''alpha_a''])] [(''alpha_a_1'', 1 / 2)]
     = ([], Inr [''fit -o out_sysA.root -p mu=1_0_2,alpha_a_1=0.5'']) \<and>
   flag_value ''-p'' (py_split ''fit -o out_sysA.root -p mu=1_0_2,alpha_a_1=0.5'')
     = Some (''mu=1_0_2'' @ '','' @ ''alpha_a_1=0.5'')"
proof -
  let ?cmd = "''fit -o out.root -p mu=1_0_2''"
  let ?d = "''fit -o out_sysA.root -p mu=1_0_2,alpha_a_1=0.5''"
  define fmt :: "real \<Rightarrow> string" where "fmt = (\<lambda>x. if x = 1 / 2 then ''0.5'' else ''1.0'')"
  define NPinfo :: "(string, real) dict" where "NPinfo = [(''alpha_a_1'', 1 / 2)]"
  define F where "F = fixed_systs_spec fmt [''alpha_a''] NPinfo"
  have p: "flag_value ''-p'' (py_split ?cmd) = Some ''mu=1_0_2''" by code_simp
  have eq: "CHR ''='' \<in> set ''mu=1_0_2''" by simp
  have ov: "flag_value ''-o'' (py_split ?cmd) = Some ''out.root''" by code_simp
  have x: "splitext ''out.root'' = (''out'', ''.root'')" by code_simp
  from ov x have o: "\<exists>v stem. flag_value ''-o'' (py_split ?cmd) = Some v \<and>
      splitext v = (stem, ''.root'')" by (intro exI conjI)
  have wf: "dict_wf NPinfo" by (simp add: dict_wf_def NPinfo_def)
  have g: "no_space ''sysA''" by (simp add: no_space_def is_space_def whitespace_def)
  have Fv: "F = ''alpha_a_1=0.5''"
    by (simp add: F_def fixed_systs_spec_def fmt_def NPinfo_def sublist_code)
  have f: "no_space ''alpha_a_1=0.5''" by (simp add: no_space_def is_space_def whitespace_def)
  have pre: "flag_value ''-p'' (py_split ?cmd) = Some ''mu=1_0_2'' \<and>
      CHR ''='' \<in> set ''mu=1_0_2'' \<and>
      (''-o'' \<notin> set (py_split ?cmd) \<or>
       (\<exists>v stem. flag_value ''-o'' (py_split ?cmd) = Some v \<and> splitext v = (stem, ''.root'')))"
    using p eq o by (intro conjI disjI2)
  have h: "fmt (1 / 2) = ''0.5''" by (simp add: fmt_def)
  from edit_cmd_appends_fixed[THEN conjunct2, rule_format, of fmt, OF h]
  have sc: "generate_alt_cmds fmt ?cmd [(''sysA'', [''alpha_a''])] NPinfo = ([], Inr [?d])"
    unfolding NPinfo_def .
  from edit_cmd_appends_fixed[THEN conjunct1, rule_format, OF pre, THEN conjunct2, rule_format, OF wf,
           where fmt = fmt and groups = "[(''sysA'', [''alpha_a''])]"]
  obtain lg cmds where
    r: "generate_alt_cmds fmt ?cmd [(''sysA'', [''alpha_a''])] NPinfo = (lg, Inr cmds)"
    and all: "list_all2 (\<lambda>(g, systs) c. \<exists>lg' toks'.
                 edit_split_cmd (py_split ?cmd) g (fixed_systs_spec fmt systs NPinfo)
                   = (lg', Inr toks') \<and>
                 c = join '' '' toks' \<and>
                 flag_value ''-p'' toks' = Some (''mu=1_0_2'' @ '','' @ fixed_systs_spec fmt systs NPinfo) \<and>
                 (no_space g \<and> no_space (fixed_systs_spec fmt systs NPinfo) \<longrightarrow>
                    flag_value ''-p'' (py_split c)
                      = Some (''mu=1_0_2'' @ '','' @ fixed_systs_spec fmt systs NPinfo)))
               [(''sysA'', [''alpha_a''])] cmds"
    by blast
  from r sc have cmds: "cmds = [?d]" by simp
  from all have "no_space ''sysA'' \<and> no_space (fixed_systs_spec fmt [''alpha_a''] NPinfo) \<longrightarrow>
      flag_value ''-p'' (py_split ?d)
        = Some (''mu=1_0_2'' @ '','' @ fixed_systs_spec fmt [''alpha_a''] NPinfo)"
    unfolding cmds
    by (simp only: list_all2_Cons list_all2_Nil split_conv) (elim conjE exE, assumption)
  then have "no_space ''sysA'' \<and> no_space ''alpha_a_1=0.5'' \<longrightarrow>
      flag_value ''-p'' (py_split ?d) = Some (''mu=1_0_2'' @ '','' @ ''alpha_a_1=0.5'')"
    unfolding F_def[symmetric] Fv .
  with g f have v: "flag_value ''-p'' (py_split ?d) = Some (''mu=1_0_2'' @ '','' @ ''alpha_a_1=0.5'')"
    by (elim impE) (rule conjI)
  show ?thesis
    using p eq o wf g Fv f sc v unfolding F_def fmt_def NPinfo_def by (intro conjI)
qed

text \<open>
  The claim as first worded fails in two ways. The command \<open>fit -o out.txt -p mu=1_0_2\<close>
  has a \<open>-p\<close> value containing \<open>=\<close>, but its \<open>-o\<close> value does not have the extension
  \<open>.root\<close>: \<open>edit_cmd\<close> exits with code 1, and so does \<open>generate_alt_cmds\<close>; there is
  no derived command. And with the group name \<open>x -p y\<close> the derived command of
  \<open>fit -o out.root -p mu=1\<close> is \<open>fit -o out_x -p y.root -p mu=1,a=1\<close>, where the value
  that follows the first \<open>-p\<close> is \<open>y.root\<close>.
\<close>

theorem edit_cmd_appends_fixed_rejected:
  "flag_value ''-p'' (py_split ''fit -o out.txt -p mu=1_0_2'') = Some ''mu=1_0_2'' \<and>
   CHR ''='' \<in> set ''mu=1_0_2'' \<and>
   edit_cmd ''fit -o out.txt -p mu=1_0_2'' ''sysA'' ''alpha_a_1=0.5''
     = ([ErrOExt], Inl (SystemExit 1)) \<and>
   generate_alt_cmds (\<lambda>x :: real. ''0.5'') ''fit -o out.txt -p mu=1_0_2''
     [(''sysA'', [''alpha_a''])] [(''alpha_a_1'', 1 / 2)]
     = ([ErrOExt], Inl (SystemExit 1)) \<and>
   flag_value ''-p'' (py_split ''fit -o out.root -p mu=1'') = Some ''mu=1'' \<and>
   edit_cmd ''fit -o out.root -p mu=1'' ''x -p y'' ''a=1''
     = ([], Inr ''fit -o out_x -p y.root -p mu=1,a=1'') \<and>
   flag_value ''-p'' (py_split ''fit -o out_x -p y.root -p mu=1,a=1'') = Some ''y.root''"
proof -
  have a1: "flag_value ''-p'' (py_split ''fit -o out.txt -p mu=1_0_2'') = Some ''mu=1_0_2''"
    by code_simp
  have a2: "CHR ''='' \<in> set ''mu=1_0_2''" by simp
  have a3: "edit_cmd ''fit -o out.txt -p mu=1_0_2'' ''sysA'' ''alpha_a_1=0.5''
     = ([ErrOExt], Inl (SystemExit 1))" by code_simp
  have f: "fixed_systs (\<lambda>x :: real. ''0.5'') [''alpha_a''] [(''alpha_a_1'', 1 / 2)]
             = ([], Inr ''alpha_a_1=0.5'')"
    by (simp add: fixed_systs_def matched_keys_def dict_keys_def dict_get_def)
  have a4: "generate_alt_cmds (\<lambda>x :: real. ''0.5'') ''fit -o out.txt -p mu=1_0_2''
     [(''sysA'', [''alpha_a''])] [(''alpha_a_1'', 1 / 2)]
     = ([ErrOExt], Inl (SystemExit 1))"
    by (simp add: generate_alt_cmds_def f a3)
  have b1: "flag_value ''-p'' (py_split ''fit -o out.root -p mu=1'') = Some ''mu=1''"
    by code_simp
  have b2: "edit_cmd ''fit -o out.root -p mu=1'' ''x -p y'' ''a=1''
     = ([], Inr ''fit -o out_x -p y.root -p mu=1,a=1'')" by code_simp
  have b3: "flag_value ''-p'' (py_split ''fit -o out_x -p y.root -p mu=1,a=1'') = Some ''y.root''"
    by code_simp
  show ?thesis by (intro conjI) (rule a1, rule a2, rule a3, rule a4, rule b1, rule b2, rule b3)
qed


subsection \<open>get\_fnames\<close>

lemma py_find_from_ge: "py_find_from sub s i = Some j \<Longrightarrow> i \<le> j"
  by (induction s arbitrary: i) (auto split: if_splits dest: Suc_leD)

lemma py_find_from_shift:
  "py_find_from sub s (Suc i) = map_option Suc (py_find_from sub s i)"
  by (induction s arbitrary: i) auto

lemma first_piece_Cons:
  "first_piece sep (c # cs) = (if prefix sep (c # cs) then [] else c # first_piece sep cs)"
  by (auto simp: first_piece_def py_find_def py_find_from_shift split: option.splits)

lemma first_piece_Nil: "first_piece sep [] = []"
  by (simp add: first_piece_def py_find_def)

lemma split_on_first:
  "sep \<noteq> [] \<Longrightarrow> \<exists>rest. split_on sep cur s = (rev cur @ first_piece sep s) # rest"
proof (induction s arbitrary: cur)
  case Nil
  then show ?case by (simp add: split_on.simps first_piece_Nil)
next
  case (Cons c cs)
  show ?case
  proof (cases "prefix sep (c # cs)")
    case True
    with Cons.prems show ?thesis
      by (subst split_on.simps) (simp add: first_piece_Cons)
  next
    case False
    from Cons.IH[OF Cons.prems, of "c # cur"] obtain rest where
      "split_on sep (c # cur) cs = (rev (c # cur) @ first_piece sep cs) # rest" by blast
    with False show ?thesis
      by (subst split_on.simps) (simp add: first_piece_Cons)
  qed
qed

lemma split_on_leading:
  assumes "sep \<noteq> []"
  shows "split_on sep [] (sep @ s) = [] # split_on sep [] s"
proof -
  from assms obtain c cs where sep: "sep = c # cs" by (cases sep) auto
  have "split_on sep [] (c # (cs @ s)) = rev [] # split_on sep [] (drop (length sep) (c # (cs @ s)))"
    by (subst split_on.simps) (simp add: sep)
  then show ?thesis by (simp add: sep)
qed

lemma get_gname_alt_name:
  assumes "ext \<noteq> []"
  shows "get_gname base ext (alt_name base ext g)
         = Inr (first_piece ext (first_piece (base @ ''_'') (g @ ext)))"
proof -
  have ne: "base @ ''_'' \<noteq> []" by simp
  obtain r1 where r1: "split_on (base @ ''_'') [] (g @ ext)
                       = first_piece (base @ ''_'') (g @ ext) # r1"
    using split_on_first[OF ne, of "[]" "g @ ext"] by auto
  have "split_on (base @ ''_'') [] (alt_name base ext g)
        = [] # first_piece (base @ ''_'') (g @ ext) # r1"
    using split_on_leading[OF ne, of "g @ ext"] r1 by (simp add: alt_name_def)
  then have p1: "py_split_sep (base @ ''_'') (alt_name base ext g)
        = Inr ([] # first_piece (base @ ''_'') (g @ ext) # r1)"
    by (simp add: py_split_sep_def)
  obtain r2 where "split_on ext [] (first_piece (base @ ''_'') (g @ ext))
        = first_piece ext (first_piece (base @ ''_'') (g @ ext)) # r2"
    using split_on_first[OF assms, of "[]"] by auto
  then have p2: "py_split_sep ext (first_piece (base @ ''_'') (g @ ext))
        = Inr (first_piece ext (first_piece (base @ ''_'') (g @ ext)) # r2)"
    using assms by (simp add: py_split_sep_def)
  show ?thesis
    unfolding get_gname_def p1 by (simp add: list_get_def p2)
qed

lemma get_gname_round_trip:
  assumes "ext \<noteq> []"
    and "py_find (base @ ''_'') (g @ ext) = None"
    and "py_find ext (g @ ext) = Some (length g)"
  shows "get_gname base ext (alt_name base ext g) = Inr g"
  using assms by (simp add: get_gname_alt_name first_piece_def)

lemma get_fnames_loop_good:
  assumes "\<forall>g \<in> set gs. get_gname base ext (alt_name base ext g) = Inr g"
  shows "\<exists>fnames. get_fnames_loop base ext (map (alt_name base ext) gs) acc = Inr fnames \<and>
           fst ` set fnames = fst ` set acc \<union> set gs \<and>
           (\<forall>g \<in> set gs. map_of fnames g = Some (alt_name base ext g)) \<and>
           (\<forall>k. k \<notin> set gs \<longrightarrow> map_of fnames k = map_of acc k)"
  using assms
proof (induction gs arbitrary: acc)
  case Nil
  then show ?case by simp
next
  case (Cons g gs)
  let ?acc = "AList.update g (alt_name base ext g) acc"
  from Cons.prems have g: "get_gname base ext (alt_name base ext g) = Inr g"
    and rest: "\<forall>g \<in> set gs. get_gname base ext (alt_name base ext g) = Inr g" by simp_all
  from Cons.IH[OF rest, of ?acc] obtain fnames where
    l: "get_fnames_loop base ext (map (alt_name base ext) gs) ?acc = Inr fnames"
    and k: "fst ` set fnames = fst ` set ?acc \<union> set gs"
    and m: "\<forall>g \<in> set gs. map_of fnames g = Some (alt_name base ext g)"
    and o: "\<forall>k. k \<notin> set gs \<longrightarrow> map_of fnames k = map_of ?acc k"
    by blast
  have "get_fnames_loop base ext (map (alt_name base ext) (g # gs)) acc = Inr fnames"
    using g l by simp
  moreover have "fst ` set fnames = fst ` set acc \<union> set (g # gs)"
    using k by (auto simp: dom_update)
  moreover have "\<forall>h \<in> set (g # gs). map_of fnames h = Some (alt_name base ext h)"
    using m o by (auto simp: update_conv')
  moreover have "\<forall>k. k \<notin> set (g # gs) \<longrightarrow> map_of fnames k = map_of acc k"
    using o by (auto simp: update_conv')
  ultimately show ?case by blast
qed

text \<open>
  Where discovery does map the generated names back. Let the baseline path split into
  \<open>base\<close> and a non-empty extension \<open>ext\<close>, and let every group name \<open>g\<close> be such that
  \<open>base_\<close> does not occur in \<open>g\<close> followed by \<open>ext\<close>, and \<open>ext\<close> occurs there first at
  the very end. Then each generated file name is mapped back to its group name, and when
  the glob returns the generated files, \<open>get_fnames\<close> succeeds, its keys are \<open>Base\<close> and
  the group names, and each group name is mapped to its file.
\<close>

lemma get_fnames_round_trip:
  assumes "splitext fname = (base, ext)" and "ext \<noteq> []"
    and "\<forall>g \<in> set gs. py_find (base @ ''_'') (g @ ext) = None \<and>
                      py_find ext (g @ ext) = Some (length g)"
  shows "(\<forall>g \<in> set gs. get_gname base ext (alt_name base ext g) = Inr g) \<and>
         (\<exists>fnames. get_fnames fname (map (alt_name base ext) gs) = Inr fnames \<and>
            set (dict_keys fnames) = insert ''Base'' (set gs) \<and>
            (\<forall>g \<in> set gs. map_of fnames g = Some (alt_name base ext g)))"
proof -
  have good: "\<forall>g \<in> set gs. get_gname base ext (alt_name base ext g) = Inr g"
    using assms(2,3) by (simp add: get_gname_round_trip)
  from get_fnames_loop_good[OF good, of "[(''Base'', fname)]"] obtain fnames where
    "get_fnames_loop base ext (map (alt_name base ext) gs) [(''Base'', fname)] = Inr fnames"
    "fst ` set fnames = fst ` set [(''Base'', fname)] \<union> set gs"
    "\<forall>g \<in> set gs. map_of fnames g = Some (alt_name base ext g)"
    by blast
  then have "get_fnames fname (map (alt_name base ext) gs) = Inr fnames \<and>
            set (dict_keys fnames) = insert ''Base'' (set gs) \<and>
            (\<forall>g \<in> set gs. map_of fnames g = Some (alt_name base ext g))"
    using assms(1) by (simp add: get_fnames_def dict_keys_def)
  with good show ?thesis by blast
qed

lemma get_fnames_round_trip_example:
  "splitext ''d/out.root'' = (''d/out'', ''.root'') \<and>
   get_gname ''d/out'' ''.root'' (alt_name ''d/out'' ''.root'' ''sysA'') = Inr ''sysA'' \<and>
   get_gname ''d/out'' ''.root'' (alt_name ''d/out'' ''.root'' ''AllSys'') = Inr ''AllSys'' \<and>
   (\<exists>fnames. get_fnames ''d/out.root'' (map (alt_name ''d/out'' ''.root'') [''sysA'', ''AllSys''])
        = Inr fnames \<and>
      set (dict_keys fnames) = insert ''Base'' (set [''sysA'', ''AllSys'']))"
proof -
  have s: "splitext ''d/out.root'' = (''d/out'', ''.root'')" by code_simp
  have e: "''.root'' \<noteq> []" by simp
  have h: "\<forall>g \<in> set [''sysA'', ''AllSys''].
             py_find (''d/out'' @ ''_'') (g @ ''.root'') = None \<and>
             py_find ''.root'' (g @ ''.root'') = Some (length g)"
    by (simp add: py_find_def)
  note t = get_fnames_round_trip[OF s e h]
  from t have a: "\<forall>g \<in> set [''sysA'', ''AllSys''].
      get_gname ''d/out'' ''.root'' (alt_name ''d/out'' ''.root'' g) = Inr g"
    by (rule conjunct1)
  from a have a1: "get_gname ''d/out'' ''.root'' (alt_name ''d/out'' ''.root'' ''sysA'') = Inr ''sysA''"
    and a2: "get_gname ''d/out'' ''.root'' (alt_name ''d/out'' ''.root'' ''AllSys'') = Inr ''AllSys''"
    by simp_all
  from t obtain fnames where
    "get_fnames ''d/out.root'' (map (alt_name ''d/out'' ''.root'') [''sysA'', ''AllSys'']) = Inr fnames"
    "set (dict_keys fnames) = insert ''Base'' (set [''sysA'', ''AllSys''])"
    by blast
  then have b: "\<exists>fnames. get_fnames ''d/out.root'' (map (alt_name ''d/out'' ''.root'') [''sysA'', ''AllSys''])
        = Inr fnames \<and>
      set (dict_keys fnames) = insert ''Base'' (set [''sysA'', ''AllSys''])"
    by (intro exI conjI)
  show ?thesis by (intro conjI) (rule s, rule a1, rule a2, rule b)
qed

text \<open>
  Claim C7 (the code departs from it). The generation step names the output of the group
  \<open>prefit_sys\<close> of the baseline \<open>fit.root\<close> as \<open>fit_prefit_sys.root\<close>. Discovery splits
  that name at every \<open>fit_\<close> and takes the second piece, so the pieces are the empty
  string, \<open>pre\<close> and \<open>sys.root\<close>, and the group comes back under the name \<open>pre\<close>: the
  discovered names are \<open>Base\<close> and \<open>pre\<close>, not \<open>Base\<close> and \<open>prefit_sys\<close>.
\<close>

theorem get_gname_not_round_trip:
  "edit_cmd ''quickFit -o fit.root -p mu=1_0_2'' ''prefit_sys'' ''a=1''
     = ([], Inr ''quickFit -o fit_prefit_sys.root -p mu=1_0_2,a=1'') \<and>
   splitext ''fit.root'' = (''fit'', ''.root'') \<and>
   alt_name ''fit'' ''.root'' ''prefit_sys'' = ''fit_prefit_sys.root'' \<and>
   get_gname ''fit'' ''.root'' ''fit_prefit_sys.root'' = Inr ''pre'' \<and>
   get_fnames ''fit.root'' [''fit_prefit_sys.root'']
     = Inr [(''Base'', ''fit.root''), (''pre'', ''fit_prefit_sys.root'')]"
  by code_simp

subsection \<open>check\_fit\_results\<close>

lemma poi_data_wf_Cons:
  "poi_data_wf ((pname, groups) # rest) \<Longrightarrow>
     poi_data_wf rest \<and> dict_wf groups \<and> pname \<notin> fst ` set rest \<and>
     (\<exists>b. map_of groups ''Base'' = Some b)"
  by (auto simp: poi_data_wf_def dict_wf_def dict_keys_def weak_map_of_SomeI
           dest!: map_of_SomeD intro: map_of_is_SomeI)

lemma check_groups_zero:
  "(g, alt) \<in> set items \<Longrightarrow> g \<noteq> ''Base'' \<Longrightarrow>
   check_groups pname b 0 tol items lg = (lg, Inl ZeroDivisionError)"
  by (induction items) auto

lemma check_groups_safe:
  "sigma \<noteq> 0 \<or> (\<forall>(g, alt) \<in> set items. g = ''Base'') \<Longrightarrow>
   check_groups pname b sigma tol items lg =
     (lg @ map (\<lambda>(g, alt). WarnDiffer pname g tol)
            (filter (\<lambda>(g, alt). g \<noteq> ''Base'' \<and> \<bar>poi_value b - poi_value alt\<bar> / sigma > tol) items),
      Inr ())"
proof (induction items arbitrary: lg)
  case Nil
  then show ?case by simp
next
  case (Cons a items)
  obtain g alt where a: "a = (g, alt)" by (cases a)
  from Cons.prems have rest: "sigma \<noteq> 0 \<or> (\<forall>(g, alt) \<in> set items. g = ''Base'')" by auto
  from Cons.prems a have here: "g \<noteq> ''Base'' \<Longrightarrow> sigma \<noteq> 0" by auto
  show ?case
    unfolding a using here by (simp add: Cons.IH[OF rest])
qed

lemma check_groups_result:
  "\<exists>lg'. check_groups pname b sigma tol items lg = (lg', Inr ()) \<or>
         check_groups pname b sigma tol items lg = (lg', Inl ZeroDivisionError)"
  by (induction items arbitrary: lg) auto

lemma check_loop_zero:
  assumes "poi_data_wf poi_data" "(pname, groups) \<in> set poi_data"
    "map_of groups ''Base'' = Some b" "base_scale b = 0" "(g, alt) \<in> set groups" "g \<noteq> ''Base''"
  shows "\<exists>lg'. check_loop tol poi_data lg = (lg', Inl ZeroDivisionError)"
  using assms(1,2)
proof (induction poi_data arbitrary: lg)
  case Nil
  then show ?case by simp
next
  case (Cons a rest)
  obtain pname' groups' where a: "a = (pname', groups')" by (cases a)
  from Cons.prems(1) a obtain b' where wf: "poi_data_wf rest"
    and b': "map_of groups' ''Base'' = Some b'"
    by (auto dest: poi_data_wf_Cons)
  from check_groups_result[of pname' b' "base_scale b'" tol groups' lg]
  obtain lg' where "check_groups pname' b' (base_scale b') tol groups' lg = (lg', Inr ()) \<or>
     check_groups pname' b' (base_scale b') tol groups' lg = (lg', Inl ZeroDivisionError)"
    by blast
  then show ?case
  proof
    assume ok: "check_groups pname' b' (base_scale b') tol groups' lg = (lg', Inr ())"
    have "(pname, groups) \<noteq> (pname', groups')"
    proof
      assume "(pname, groups) = (pname', groups')"
      with assms(3) b' have "b' = b" "groups' = groups" by simp_all
      with ok check_groups_zero[OF assms(5,6), of pname' b tol lg] assms(4)
      show False by simp
    qed
    with Cons.prems(2) a have "(pname, groups) \<in> set rest" by auto
    from Cons.IH[OF wf this, of lg'] ok b' a show ?thesis
      by (simp add: dict_get_def)
  next
    assume "check_groups pname' b' (base_scale b') tol groups' lg = (lg', Inl ZeroDivisionError)"
    with b' a show ?thesis by (simp add: dict_get_def)
  qed
qed

text \<open>
  Claim C9. In a well-formed \<open>poi_data\<close>, if some POI has a \<open>Base\<close> entry whose two
  errors are zero and an entry for another group, \<open>check_fit_results\<close> does not return:
  it raises \<open>ZeroDivisionError\<close>, whatever the tolerance.
\<close>

theorem check_fit_results_zero_scale:
  assumes "poi_data_wf poi_data" and "(pname, groups) \<in> set poi_data"
    and "map_of groups ''Base'' = Some b" and "poi_err b = (0, 0)"
    and "(g, alt) \<in> set groups" and "g \<noteq> ''Base''"
  shows "\<exists>lg. check_fit_results poi_data tol = (lg, Inl ZeroDivisionError)"
proof -
  from assms(4) have "base_scale b = 0" by (simp add: base_scale_def)
  from check_loop_zero[OF assms(1,2,3) this assms(5,6)] show ?thesis
    by (simp add: check_fit_results_def)
qed


lemma check_loop_safe:
  assumes "poi_data_wf poi_data"
    and "\<forall>(pname, groups) \<in> set poi_data. \<forall>b. map_of groups ''Base'' = Some b \<longrightarrow>
           base_scale b = 0 \<longrightarrow> (\<forall>(g, alt) \<in> set groups. g = ''Base'')"
  shows "check_loop tol poi_data lg =
     (lg @ concat (map (\<lambda>(pname, groups).
        map (\<lambda>(g, alt). WarnDiffer pname g tol)
          (filter (\<lambda>(g, alt). g \<noteq> ''Base'' \<and>
               \<bar>poi_value (the (map_of groups ''Base'')) - poi_value alt\<bar>
                 / base_scale (the (map_of groups ''Base'')) > tol) groups)) poi_data),
      Inr ())"
  using assms
proof (induction poi_data arbitrary: lg)
  case Nil
  then show ?case by simp
next
  case (Cons a rest)
  obtain pname groups where a: "a = (pname, groups)" by (cases a)
  from Cons.prems(1) a obtain b where wf: "poi_data_wf rest"
    and b: "map_of groups ''Base'' = Some b"
    by (auto dest: poi_data_wf_Cons)
  from Cons.prems(2) a b
  have ok: "base_scale b \<noteq> 0 \<or> (\<forall>(g, alt) \<in> set groups. g = ''Base'')" by auto
  from Cons.prems(2) have rest: "\<forall>(pname, groups) \<in> set rest.
      \<forall>b. map_of groups ''Base'' = Some b \<longrightarrow>
        base_scale b = 0 \<longrightarrow> (\<forall>(g, alt) \<in> set groups. g = ''Base'')" by auto
  show ?case
    unfolding a
    by (simp add: dict_get_def b check_groups_safe[OF ok] Cons.IH[OF wf rest])
qed

lemma dict_wf_unique:
  "dict_wf d \<Longrightarrow> (k, v) \<in> set d \<Longrightarrow> (k, v') \<in> set d \<Longrightarrow> v = v'"
  by (metis dict_wf_def map_of_is_SomeI option.inject)

lemma poi_data_wf_groups:
  "poi_data_wf poi_data \<Longrightarrow> (pname, groups) \<in> set poi_data \<Longrightarrow> dict_wf groups"
  by (auto simp: poi_data_wf_def list_all_iff)

lemma scale_compare:
  fixes s :: real
  assumes "0 \<le> s" "s \<noteq> 0"
  shows "tol < \<bar>bv - av\<bar> / s \<longleftrightarrow> \<bar>av - bv\<bar> > tol * s"
proof -
  from assms have "0 < s" by simp
  then have "tol < \<bar>bv - av\<bar> / s \<longleftrightarrow> tol * s < \<bar>bv - av\<bar>"
    by (simp add: pos_less_divide_eq)
  then show ?thesis by (simp add: abs_minus_commute)
qed

lemma base_scale_nonneg: "0 \<le> base_scale b"
  by (simp add: base_scale_def)

lemma differ_in_groups:
  "WarnDiffer pname g tol \<in> set (map (\<lambda>(g, alt). WarnDiffer p' g tol) (filter P groups)) \<longleftrightarrow>
     p' = pname \<and> (\<exists>alt. (g, alt) \<in> set groups \<and> P (g, alt))"
  by (induction groups) auto

lemma differ_in_log:
  "WarnDiffer pname g tol \<in> set (concat (map (\<lambda>(pname, groups).
        map (\<lambda>(g, alt). WarnDiffer pname g tol) (filter (F groups) groups)) poi_data)) \<longleftrightarrow>
     (\<exists>groups alt. (pname, groups) \<in> set poi_data \<and> (g, alt) \<in> set groups \<and> F groups (g, alt))"
proof (induction poi_data)
  case Nil
  then show ?case by simp
next
  case (Cons a rest)
  obtain p' groups' where a: "a = (p', groups')" by (cases a)
  have "WarnDiffer pname g tol \<in> set (concat (map (\<lambda>(pname, groups).
        map (\<lambda>(g, alt). WarnDiffer pname g tol) (filter (F groups) groups)) (a # rest))) \<longleftrightarrow>
      (p' = pname \<and> (\<exists>alt. (g, alt) \<in> set groups' \<and> F groups' (g, alt))) \<or>
      (\<exists>groups alt. (pname, groups) \<in> set rest \<and> (g, alt) \<in> set groups \<and> F groups (g, alt))"
    unfolding a using Cons.IH differ_in_groups[of pname g tol p' "F groups'" groups']
    by simp
  also have "\<dots> \<longleftrightarrow> (\<exists>groups alt. (pname, groups) \<in> set (a # rest) \<and> (g, alt) \<in> set groups \<and>
      F groups (g, alt))"
    unfolding a by auto
  finally show ?case .
qed

text \<open>
  Claim C8, as amended. Take a well-formed \<open>poi_data\<close> (distinct names, every POI
  with its \<open>Base\<close> entry) in which every POI that has a group other than \<open>Base\<close> has
  a baseline scale (the mean of the absolute values of the two \<open>Base\<close> errors) that is
  not zero. Then \<open>check_fit_results\<close> returns, and it logs
  the warning for a POI and a group other than \<open>Base\<close> exactly when the deviation of the
  group's value from the baseline's is strictly greater than the tolerance times the
  baseline scale; a deviation equal to that product, or below it, is not flagged. Nothing
  else is logged.
\<close>

theorem check_fit_results_flags_strictly:
  assumes wf: "poi_data_wf poi_data"
    and safe: "\<forall>(pname, groups) \<in> set poi_data.
               \<forall>b. map_of groups ''Base'' = Some b \<longrightarrow> base_scale b = 0 \<longrightarrow>
                 (\<forall>(g, alt) \<in> set groups. g = ''Base'')"
  shows "\<exists>lg. check_fit_results poi_data tol = (lg, Inr ()) \<and>
           (\<forall>pname groups b g alt.
              (pname, groups) \<in> set poi_data \<and> map_of groups ''Base'' = Some b \<and>
              (g, alt) \<in> set groups \<and> g \<noteq> ''Base'' \<longrightarrow>
              (WarnDiffer pname g tol \<in> set lg \<longleftrightarrow>
                 \<bar>poi_value alt - poi_value b\<bar> > tol * base_scale b)) \<and>
           (\<forall>e \<in> set lg. \<exists>pname groups g alt.
              e = WarnDiffer pname g tol \<and> (pname, groups) \<in> set poi_data \<and>
              (g, alt) \<in> set groups \<and> g \<noteq> ''Base'')"
proof -
  define F :: "(string \<times> POI) list \<Rightarrow> string \<times> POI \<Rightarrow> bool"
    where "F = (\<lambda>groups. \<lambda>(g, alt). g \<noteq> ''Base'' \<and>
               \<bar>poi_value (the (map_of groups ''Base'')) - poi_value alt\<bar>
                 / base_scale (the (map_of groups ''Base'')) > tol)"
  define lg where "lg = concat (map (\<lambda>(pname, groups).
        map (\<lambda>(g, alt). WarnDiffer pname g tol) (filter (F groups) groups)) poi_data)"
  have res: "check_fit_results poi_data tol = (lg, Inr ())"
    using check_loop_safe[OF wf safe, of tol "[]"]
    by (simp add: check_fit_results_def lg_def F_def)
  have "WarnDiffer pname g tol \<in> set lg \<longleftrightarrow> \<bar>poi_value alt - poi_value b\<bar> > tol * base_scale b"
    if p: "(pname, groups) \<in> set poi_data" and b: "map_of groups ''Base'' = Some b"
      and g: "(g, alt) \<in> set groups" and nb: "g \<noteq> ''Base''"
    for pname groups b g alt
  proof -
    from wf have dw: "dict_wf poi_data" by (simp add: poi_data_wf_def)
    have gw: "dict_wf groups" by (rule poi_data_wf_groups[OF wf p])
    have sc: "base_scale b \<noteq> 0"
    proof
      assume z: "base_scale b = 0"
      from bspec[OF safe p] b z have "\<forall>(g, alt) \<in> set groups. g = ''Base''" by simp
      from bspec[OF this g] nb show False by simp
    qed
    have "WarnDiffer pname g tol \<in> set lg \<longleftrightarrow>
          (\<exists>groups' alt'. (pname, groups') \<in> set poi_data \<and> (g, alt') \<in> set groups' \<and>
             F groups' (g, alt'))"
      unfolding lg_def by (rule differ_in_log)
    also have "\<dots> \<longleftrightarrow> F groups (g, alt)"
      using p g dict_wf_unique[OF dw p] dict_wf_unique[OF gw g] by blast
    also have "\<dots> \<longleftrightarrow> \<bar>poi_value alt - poi_value b\<bar> > tol * base_scale b"
      using nb b scale_compare[OF base_scale_nonneg sc] by (simp add: F_def)
    finally show ?thesis .
  qed
  then have iff: "\<forall>pname groups b g alt.
              (pname, groups) \<in> set poi_data \<and> map_of groups ''Base'' = Some b \<and>
              (g, alt) \<in> set groups \<and> g \<noteq> ''Base'' \<longrightarrow>
              (WarnDiffer pname g tol \<in> set lg \<longleftrightarrow>
                 \<bar>poi_value alt - poi_value b\<bar> > tol * base_scale b)"
    by blast
  have only: "\<forall>e \<in> set lg. \<exists>pname groups g alt.
              e = WarnDiffer pname g tol \<and> (pname, groups) \<in> set poi_data \<and>
              (g, alt) \<in> set groups \<and> g \<noteq> ''Base''"
    unfolding lg_def F_def by fastforce
  from res iff only show ?thesis by (intro exI conjI)
qed


theorem check_fit_results_zero_scale_witness:
  "poi_data_wf [(''mu'', [(''Base'', \<lparr>poi_name = ''mu'', poi_value = 1, poi_err = (0, 0)\<rparr>),
                         (''sysA'', \<lparr>poi_name = ''mu'', poi_value = 1, poi_err = (1, 1)\<rparr>)])] \<and>
   (\<exists>lg. check_fit_results
      [(''mu'', [(''Base'', \<lparr>poi_name = ''mu'', poi_value = 1, poi_err = (0, 0)\<rparr>),
                 (''sysA'', \<lparr>poi_name = ''mu'', poi_value = 1, poi_err = (1, 1)\<rparr>)])] (1 / 2)
      = (lg, Inl ZeroDivisionError))"
proof -
  let ?b = "\<lparr>poi_name = ''mu'', poi_value = 1, poi_err = (0, 0)\<rparr>"
  let ?a = "\<lparr>poi_name = ''mu'', poi_value = 1, poi_err = (1, 1)\<rparr>"
  let ?groups = "[(''Base'', ?b), (''sysA'', ?a)]"
  have wf: "poi_data_wf [(''mu'', ?groups)]"
    by (simp add: poi_data_wf_def dict_wf_def dict_keys_def)
  have m: "(''mu'', ?groups) \<in> set [(''mu'', ?groups)]" by simp
  have b: "map_of ?groups ''Base'' = Some ?b" by simp
  have z: "poi_err ?b = (0, 0)" by simp
  have g: "(''sysA'', ?a) \<in> set ?groups" by simp
  have n: "''sysA'' \<noteq> ''Base''" by simp
  from check_fit_results_zero_scale[OF wf m b z g n, of "1 / 2"] wf show ?thesis
    by (intro conjI)
qed

theorem check_fit_results_flags_strictly_witness:
  "poi_data_wf [(''nu'', [(''Base'', \<lparr>poi_name = ''nu'', poi_value = 1, poi_err = (0, 0)\<rparr>)]),
                (''mu'', [(''Base'', \<lparr>poi_name = ''mu'', poi_value = 1, poi_err = (1, 1)\<rparr>),
                         (''sysA'', \<lparr>poi_name = ''mu'', poi_value = 2, poi_err = (1, 1)\<rparr>),
                         (''sysB'', \<lparr>poi_name = ''mu'', poi_value = 5 / 4, poi_err = (1, 1)\<rparr>)])] \<and>
   base_scale \<lparr>poi_name = ''nu'', poi_value = 1, poi_err = (0, 0)\<rparr> = 0 \<and>
   base_scale \<lparr>poi_name = ''mu'', poi_value = 1, poi_err = (1, 1)\<rparr> \<noteq> 0 \<and>
   (\<exists>lg. check_fit_results
      [(''nu'', [(''Base'', \<lparr>poi_name = ''nu'', poi_value = 1, poi_err = (0, 0)\<rparr>)]),
       (''mu'', [(''Base'', \<lparr>poi_name = ''mu'', poi_value = 1, poi_err = (1, 1)\<rparr>),
                 (''sysA'', \<lparr>poi_name = ''mu'', poi_value = 2, poi_err = (1, 1)\<rparr>),
                 (''sysB'', \<lparr>poi_name = ''mu'', poi_value = 5 / 4, poi_err = (1, 1)\<rparr>)])] (1 / 2)
      = (lg, Inr ()) \<and>
      WarnDiffer ''mu'' ''sysA'' (1 / 2) \<in> set lg \<and>
      WarnDiffer ''mu'' ''sysB'' (1 / 2) \<notin> set lg)"
proof -
  let ?n = "\<lparr>poi_name = ''nu'', poi_value = 1, poi_err = (0, 0)\<rparr>"
  let ?b = "\<lparr>poi_name = ''mu'', poi_value = 1, poi_err = (1, 1)\<rparr>"
  let ?a = "\<lparr>poi_name = ''mu'', poi_value = 2, poi_err = (1, 1)\<rparr>"
  let ?c = "\<lparr>poi_name = ''mu'', poi_value = 5 / 4, poi_err = (1, 1)\<rparr>"
  let ?groups = "[(''Base'', ?b), (''sysA'', ?a), (''sysB'', ?c)]"
  let ?data = "[(''nu'', [(''Base'', ?n)]), (''mu'', ?groups)]"
  have wf: "poi_data_wf ?data"
    by (simp add: poi_data_wf_def dict_wf_def dict_keys_def)
  have zn: "base_scale ?n = 0" by (simp add: base_scale_def)
  have zb: "base_scale ?b \<noteq> 0" by (simp add: base_scale_def)
  have safe: "\<forall>(pname, groups) \<in> set ?data.
              \<forall>b. map_of groups ''Base'' = Some b \<longrightarrow> base_scale b = 0 \<longrightarrow>
                (\<forall>(g, alt) \<in> set groups. g = ''Base'')"
    by (simp add: base_scale_def)
  from check_fit_results_flags_strictly[OF wf safe, of "1 / 2"] obtain lg where
    r: "check_fit_results ?data (1 / 2) = (lg, Inr ())"
    and f: "\<And>pname groups b g alt.
              (pname, groups) \<in> set ?data \<Longrightarrow> map_of groups ''Base'' = Some b \<Longrightarrow>
              (g, alt) \<in> set groups \<Longrightarrow> g \<noteq> ''Base'' \<Longrightarrow>
              (WarnDiffer pname g (1 / 2) \<in> set lg \<longleftrightarrow>
                 \<bar>poi_value alt - poi_value b\<bar> > 1 / 2 * base_scale b)"
    by blast
  have "WarnDiffer ''mu'' ''sysA'' (1 / 2) \<in> set lg"
    using f[of "''mu''" ?groups ?b "''sysA''" ?a] by (simp add: base_scale_def)
  moreover have "WarnDiffer ''mu'' ''sysB'' (1 / 2) \<notin> set lg"
    using f[of "''mu''" ?groups ?b "''sysB''" ?c] by (simp add: base_scale_def)
  ultimately have e: "\<exists>lg. check_fit_results ?data (1 / 2) = (lg, Inr ()) \<and>
      WarnDiffer ''mu'' ''sysA'' (1 / 2) \<in> set lg \<and>
      WarnDiffer ''mu'' ''sysB'' (1 / 2) \<notin> set lg" using r by (intro exI conjI)
  show ?thesis by (intro conjI) (rule wf, rule zn, rule zb, rule e)
qed

text \<open>
  The claim fails at the boundary: with baseline value 1 and errors (1, 1) the scale is
  1; a group value of 3/2 deviates by exactly the tolerance 1/2 times the scale, and no
  warning is logged.
\<close>

theorem check_fit_results_boundary_not_flagged:
  "base_scale \<lparr>poi_name = ''mu'', poi_value = 1, poi_err = (1, 1)\<rparr> = 1 \<and>
   \<bar>3 / 2 - 1\<bar> \<ge> 1 / 2 * (1 :: real) \<and>
   check_fit_results
     [(''mu'', [(''Base'', \<lparr>poi_name = ''mu'', poi_value = 1, poi_err = (1, 1)\<rparr>),
                (''sysA'', \<lparr>poi_name = ''mu'', poi_value = 3 / 2, poi_err = (1, 1)\<rparr>)])] (1 / 2)
     = ([], Inr ())"
  by (simp add: check_fit_results_def base_scale_def dict_get_def)


subsection \<open>compute\_impacts\<close>

lemma sq_diff_nonneg_iff:
  fixes x y :: real
  assumes "0 \<le> x" "0 \<le> y"
  shows "0 \<le> x\<^sup>2 - y\<^sup>2 \<longleftrightarrow> y \<le> x"
proof -
  have "0 \<le> x\<^sup>2 - y\<^sup>2 \<longleftrightarrow> y\<^sup>2 \<le> x\<^sup>2" by simp
  also have "\<dots> \<longleftrightarrow> \<bar>y\<bar> \<le> \<bar>x\<bar>" by (rule abs_le_square_iff[symmetric])
  also have "\<dots> \<longleftrightarrow> y \<le> x" using assms by simp
  finally show ?thesis .
qed

lemma sub_quad_errs_nonneg:
  assumes "0 \<le> fst (poi_err b)" "0 \<le> snd (poi_err b)"
    and "0 \<le> fst (poi_err a)" "0 \<le> snd (poi_err a)"
  shows "snd (sub_quad_errs b a) =
           (quad_impact (fst (poi_err b)) (fst (poi_err a)),
            quad_impact (snd (poi_err b)) (snd (poi_err a)))"
    and "fst (poi_err b) < fst (poi_err a) \<Longrightarrow>
           WarnAltLower (fst (poi_err a)) (poi_name b) (fst (poi_err b)) \<in> set (fst (sub_quad_errs b a))"
    and "snd (poi_err b) < snd (poi_err a) \<Longrightarrow>
           WarnAltUpper (snd (poi_err a)) (poi_name b) (snd (poi_err b)) \<in> set (fst (sub_quad_errs b a))"
  using sq_diff_nonneg_iff[OF assms(1,3)] sq_diff_nonneg_iff[OF assms(2,4)]
  by (auto simp: sub_quad_errs_def quad_impact_def Let_def split: prod.splits if_splits)

lemma impacts_groups_keeps:
  "k \<notin> fst ` set items \<or> k = ''Base'' \<Longrightarrow>
   map_of (snd (impacts_groups b items acc lg)) k = map_of acc k"
proof (induction items arbitrary: acc lg)
  case Nil
  then show ?case by simp
next
  case (Cons x items)
  obtain g alt where x: "x = (g, alt)" by (cases x)
  from Cons.prems x have k: "k \<notin> fst ` set items \<or> k = ''Base''" by auto
  show ?case
  proof (cases "g = ''Base''")
    case True
    with x Cons.IH[OF k] show ?thesis by simp
  next
    case False
    with Cons.prems x have "k \<noteq> g" by auto
    with False x Cons.IH[OF k] show ?thesis
      by (simp add: update_conv' split: prod.splits)
  qed
qed

lemma impacts_groups_log_mono:
  "set lg \<subseteq> set (fst (impacts_groups b items acc lg))"
proof (induction items arbitrary: acc lg)
  case Nil
  then show ?case by simp
next
  case (Cons x items)
  obtain g alt where x: "x = (g, alt)" by (cases x)
  obtain lg' r where s: "sub_quad_errs b alt = (lg', r)" by (cases "sub_quad_errs b alt")
  show ?case
  proof (cases "g = ''Base''")
    case True
    with x Cons.IH show ?thesis by simp
  next
    case False
    have "set lg \<subseteq> set (lg @ lg')" by simp
    also have "\<dots> \<subseteq> set (fst (impacts_groups b items (AList.update g r acc) (lg @ lg')))"
      by (rule Cons.IH)
    finally show ?thesis using False x s by simp
  qed
qed

lemma impacts_groups_entry:
  "distinct (map fst items) \<Longrightarrow> (g, alt) \<in> set items \<Longrightarrow> g \<noteq> ''Base'' \<Longrightarrow>
   map_of (snd (impacts_groups b items acc lg)) g = Some (snd (sub_quad_errs b alt)) \<and>
   set (fst (sub_quad_errs b alt)) \<subseteq> set (fst (impacts_groups b items acc lg))"
proof (induction items arbitrary: acc lg)
  case Nil
  then show ?case by simp
next
  case (Cons x items)
  obtain g' alt' where x: "x = (g', alt')" by (cases x)
  obtain lg' r where s: "sub_quad_errs b alt' = (lg', r)" by (cases "sub_quad_errs b alt'")
  from Cons.prems(1) x have d: "distinct (map fst items)" and nin: "g' \<notin> fst ` set items"
    by auto
  show ?case
  proof (cases "(g, alt) = (g', alt')")
    case True
    then have eq: "g' = g" "alt' = alt" by simp_all
    from nin eq have keep: "map_of (snd (impacts_groups b items (AList.update g r acc) (lg @ lg'))) g
        = map_of (AList.update g r acc) g"
      by (intro impacts_groups_keeps) simp
    have "set lg' \<subseteq> set (lg @ lg')" by simp
    also have "\<dots> \<subseteq> set (fst (impacts_groups b items (AList.update g r acc) (lg @ lg')))"
      by (rule impacts_groups_log_mono)
    finally show ?thesis
      using keep Cons.prems(3) x s eq by (simp add: update_conv')
  next
    case False
    with Cons.prems(2) x have m: "(g, alt) \<in> set items" by auto
    show ?thesis
    proof (cases "g' = ''Base''")
      case True
      with x Cons.IH[OF d m Cons.prems(3)] show ?thesis by simp
    next
      case False
      with x s Cons.IH[OF d m Cons.prems(3), of "AList.update g' r acc" "lg @ lg'"]
      show ?thesis by simp
    qed
  qed
qed


lemma impacts_loop_ok:
  assumes "poi_data_wf poi_data"
  shows "\<exists>lg' imp. impacts_loop poi_data acc lg = (lg', Inr imp) \<and> set lg \<subseteq> set lg' \<and>
           (\<forall>k. k \<notin> fst ` set poi_data \<longrightarrow> map_of imp k = map_of acc k) \<and>
           (\<forall>pname groups b. (pname, groups) \<in> set poi_data \<and> map_of groups ''Base'' = Some b \<longrightarrow>
              (\<exists>lg0. map_of imp pname = Some (snd (impacts_groups b groups [] lg0)) \<and>
                     set (fst (impacts_groups b groups [] lg0)) \<subseteq> set lg'))"
  using assms
proof (induction poi_data arbitrary: acc lg)
  case Nil
  then show ?case by simp
next
  case (Cons x rest)
  obtain pname' groups' where x: "x = (pname', groups')" by (cases x)
  from Cons.prems x obtain b' where wf: "poi_data_wf rest"
    and b': "map_of groups' ''Base'' = Some b'" and nin: "pname' \<notin> fst ` set rest"
    by (auto dest: poi_data_wf_Cons)
  obtain lg1 inner where ig: "impacts_groups b' groups' [] lg = (lg1, inner)"
    by (cases "impacts_groups b' groups' [] lg")
  let ?acc = "AList.update pname' inner acc"
  from Cons.IH[OF wf, of ?acc lg1] obtain lg' imp where
    l: "impacts_loop rest ?acc lg1 = (lg', Inr imp)" and sub: "set lg1 \<subseteq> set lg'"
    and keep: "\<forall>k. k \<notin> fst ` set rest \<longrightarrow> map_of imp k = map_of ?acc k"
    and ent: "\<forall>pname groups b. (pname, groups) \<in> set rest \<and> map_of groups ''Base'' = Some b \<longrightarrow>
              (\<exists>lg0. map_of imp pname = Some (snd (impacts_groups b groups [] lg0)) \<and>
                     set (fst (impacts_groups b groups [] lg0)) \<subseteq> set lg')"
    by blast
  have run: "impacts_loop (x # rest) acc lg = (lg', Inr imp)"
    using x b' ig l by (simp add: dict_get_def)
  have "set lg \<subseteq> set lg1"
    using impacts_groups_log_mono[of lg b' groups' "[]"] ig by simp
  with sub have mono: "set lg \<subseteq> set lg'" by blast
  have keep': "\<forall>k. k \<notin> fst ` set (x # rest) \<longrightarrow> map_of imp k = map_of acc k"
    using keep x by (auto simp: update_conv')
  have here: "map_of imp pname' = Some (snd (impacts_groups b' groups' [] lg)) \<and>
              set (fst (impacts_groups b' groups' [] lg)) \<subseteq> set lg'"
    using keep nin ig sub by (simp add: update_conv')
  have ent': "\<exists>lg0. map_of imp pname = Some (snd (impacts_groups b groups [] lg0)) \<and>
                     set (fst (impacts_groups b groups [] lg0)) \<subseteq> set lg'"
    if "(pname, groups) \<in> set (x # rest)" and "map_of groups ''Base'' = Some b"
    for pname groups b
  proof (cases "(pname, groups) = x")
    case True
    with x that(2) b' have "pname = pname'" "groups = groups'" "b = b'" by simp_all
    with here show ?thesis by blast
  next
    case False
    with that(1) have "(pname, groups) \<in> set rest" by simp
    with ent that(2) show ?thesis by blast
  qed
  from run mono keep' ent' show ?case by blast
qed

text \<open>
  Claim C1. In a well-formed \<open>poi_data\<close>, \<open>compute_impacts\<close> returns, and for every POI
  and every group other than \<open>Base\<close> whose errors and the baseline's are not negative,
  the impact stored for the group is, side by side, \<open>quad_impact\<close> of the baseline error
  and the group's error: the square root of the difference of the squares when the
  group's error is at most the baseline's, and zero otherwise; in the second case the
  warning for that side is in the log.
\<close>

theorem compute_impacts_quadrature:
  assumes wf: "poi_data_wf poi_data"
    and p: "(pname, groups) \<in> set poi_data"
    and b: "map_of groups ''Base'' = Some b"
    and g: "(g, alt) \<in> set groups" and nb: "g \<noteq> ''Base''"
    and nonneg: "0 \<le> fst (poi_err b)" "0 \<le> snd (poi_err b)"
                "0 \<le> fst (poi_err alt)" "0 \<le> snd (poi_err alt)"
  shows "\<exists>lg impacts inner.
           compute_impacts poi_data = (lg, Inr impacts) \<and>
           map_of impacts pname = Some inner \<and>
           map_of inner g = Some (quad_impact (fst (poi_err b)) (fst (poi_err alt)),
                                  quad_impact (snd (poi_err b)) (snd (poi_err alt))) \<and>
           (fst (poi_err b) < fst (poi_err alt) \<longrightarrow>
              WarnAltLower (fst (poi_err alt)) (poi_name b) (fst (poi_err b)) \<in> set lg) \<and>
           (snd (poi_err b) < snd (poi_err alt) \<longrightarrow>
              WarnAltUpper (snd (poi_err alt)) (poi_name b) (snd (poi_err b)) \<in> set lg)"
proof -
  from impacts_loop_ok[OF wf, of "[]" "[]"] p b obtain lg impacts lg0 where
    run: "compute_impacts poi_data = (lg, Inr impacts)"
    and inner: "map_of impacts pname = Some (snd (impacts_groups b groups [] lg0))"
    and sub: "set (fst (impacts_groups b groups [] lg0)) \<subseteq> set lg"
    unfolding compute_impacts_def by blast
  have gw: "distinct (map fst groups)"
    using poi_data_wf_groups[OF wf p] by (simp add: dict_wf_def)
  from impacts_groups_entry[OF gw g nb, of b "[]" lg0]
  have e: "map_of (snd (impacts_groups b groups [] lg0)) g = Some (snd (sub_quad_errs b alt))"
    and w: "set (fst (sub_quad_errs b alt)) \<subseteq> set (fst (impacts_groups b groups [] lg0))"
    by simp_all
  note q = sub_quad_errs_nonneg[OF nonneg]
  from w sub have ws: "set (fst (sub_quad_errs b alt)) \<subseteq> set lg" by blast
  have lo: "fst (poi_err b) < fst (poi_err alt) \<longrightarrow>
              WarnAltLower (fst (poi_err alt)) (poi_name b) (fst (poi_err b)) \<in> set lg"
    using q(2) ws by blast
  have hi: "snd (poi_err b) < snd (poi_err alt) \<longrightarrow>
              WarnAltUpper (snd (poi_err alt)) (poi_name b) (snd (poi_err b)) \<in> set lg"
    using q(3) ws by blast
  from e q(1) have e': "map_of (snd (impacts_groups b groups [] lg0)) g
      = Some (quad_impact (fst (poi_err b)) (fst (poi_err alt)),
              quad_impact (snd (poi_err b)) (snd (poi_err alt)))" by simp
  from run inner e' lo hi show ?thesis by blast
qed

theorem compute_impacts_quadrature_witness:
  "poi_data_wf [(''mu'', [(''Base'', \<lparr>poi_name = ''mu'', poi_value = 1, poi_err = (3, 5)\<rparr>),
                         (''sysA'', \<lparr>poi_name = ''mu'', poi_value = 1, poi_err = (4, 3)\<rparr>)])] \<and>
   (\<exists>lg impacts inner.
      compute_impacts
        [(''mu'', [(''Base'', \<lparr>poi_name = ''mu'', poi_value = 1, poi_err = (3, 5)\<rparr>),
                   (''sysA'', \<lparr>poi_name = ''mu'', poi_value = 1, poi_err = (4, 3)\<rparr>)])]
        = (lg, Inr impacts) \<and>
      map_of impacts ''mu'' = Some inner \<and>
      map_of inner ''sysA'' = Some (0, sqrt (5\<^sup>2 - 3\<^sup>2)) \<and>
      WarnAltLower 4 ''mu'' 3 \<in> set lg)"
proof -
  let ?b = "\<lparr>poi_name = ''mu'', poi_value = 1, poi_err = (3, 5)\<rparr>"
  let ?a = "\<lparr>poi_name = ''mu'', poi_value = 1, poi_err = (4, 3)\<rparr>"
  let ?groups = "[(''Base'', ?b), (''sysA'', ?a)]"
  have wf: "poi_data_wf [(''mu'', ?groups)]"
    by (simp add: poi_data_wf_def dict_wf_def dict_keys_def)
  have p: "(''mu'', ?groups) \<in> set [(''mu'', ?groups)]" by simp
  have b: "map_of ?groups ''Base'' = Some ?b" by simp
  have g: "(''sysA'', ?a) \<in> set ?groups" by simp
  have nb: "''sysA'' \<noteq> ''Base''" by simp
  have nn: "0 \<le> fst (poi_err ?b)" "0 \<le> snd (poi_err ?b)" "0 \<le> fst (poi_err ?a)" "0 \<le> snd (poi_err ?a)"
    by simp_all
  from compute_impacts_quadrature[OF wf p b g nb nn] obtain lg impacts inner where
    "compute_impacts [(''mu'', ?groups)] = (lg, Inr impacts)"
    "map_of impacts ''mu'' = Some inner"
    "map_of inner ''sysA'' = Some (quad_impact 3 4, quad_impact 5 3)"
    "WarnAltLower 4 ''mu'' 3 \<in> set lg"
    by auto
  moreover have "quad_impact 3 4 = 0" "quad_impact 5 3 = sqrt (5\<^sup>2 - 3\<^sup>2)"
    by (simp_all add: quad_impact_def)
  ultimately show ?thesis using wf by auto
qed


subsection \<open>load\_poi\_data\<close>

lemma load_vars_nonempty: "d \<noteq> [] \<Longrightarrow> load_vars poi_list vars d \<noteq> []"
  by (induction vars arbitrary: d) (auto simp: Let_def)

lemma load_vars_keys:
  "fst ` set (load_vars poi_list vars d) =
     fst ` set d \<union> var_name ` set (matching_vars poi_list vars)"
  by (induction vars arbitrary: d) (auto simp: Let_def matching_vars_def dom_update)

lemma load_vars_empty_iff:
  "load_vars poi_list vars [] = [] \<longleftrightarrow> matching_vars poi_list vars = []"
proof -
  have "load_vars poi_list vars [] = [] \<longleftrightarrow> fst ` set (load_vars poi_list vars []) = {}"
    by simp
  also have "\<dots> \<longleftrightarrow> matching_vars poi_list vars = []"
    by (simp add: load_vars_keys)
  finally show ?thesis .
qed

lemma load_files_empty:
  assumes "(gname, fname) \<in> set fnames"
    and "matching_vars poi_list (rd fname wsname ssname) = []"
  shows "\<exists>f. f \<in> snd ` set fnames \<and> matching_vars poi_list (rd f wsname ssname) = [] \<and>
             load_files rd wsname ssname poi_list fnames tmp = ([ErrNoPOIs f], Inl (SystemExit 1))"
  using assms(1)
proof (induction fnames arbitrary: tmp)
  case Nil
  then show ?case by simp
next
  case (Cons x rest)
  obtain g f where x: "x = (g, f)" by (cases x)
  show ?case
  proof (cases "matching_vars poi_list (rd f wsname ssname) = []")
    case True
    then have "load_files rd wsname ssname poi_list (x # rest) tmp = ([ErrNoPOIs f], Inl (SystemExit 1))"
      by (simp add: x load_vars_empty_iff)
    with True x show ?thesis by force
  next
    case False
    with Cons.prems x assms(2) have "(gname, fname) \<in> set rest" by auto
    from Cons.IH[OF this, of "AList.update g (load_vars poi_list (rd f wsname ssname) []) tmp"]
    obtain f' where "f' \<in> snd ` set rest" "matching_vars poi_list (rd f' wsname ssname) = []"
      "load_files rd wsname ssname poi_list rest
         (AList.update g (load_vars poi_list (rd f wsname ssname) []) tmp)
       = ([ErrNoPOIs f'], Inl (SystemExit 1))"
      by blast
    with False x show ?thesis
      by (auto simp: load_vars_empty_iff Let_def)
  qed
qed

text \<open>
  Claim C4. If some file of \<open>fnames\<close> (the baseline or a discovered group) yields no
  variable that passes the POI prefix and the allow-list, \<open>load_poi_data\<close> logs the error
  for the first such file and exits with code 1; and a run of \<open>main\<close> that has found
  these files ends with that exit, with that error as its whole log and with nothing
  printed: no consistency check, no impact and no report come before it.
\<close>

theorem load_poi_data_empty_container_aborts:
  assumes "(gname, fname) \<in> set fnames"
    and "matching_vars poi_list (rd fname wsname ssname) = []"
  shows "(\<exists>f. f \<in> snd ` set fnames \<and> matching_vars poi_list (rd f wsname ssname) = [] \<and>
            load_poi_data rd fnames wsname ssname poi_list = ([ErrNoPOIs f], Inl (SystemExit 1))) \<and>
         (\<forall>alt_fnames a.
            get_fnames (arg_input a) alt_fnames = Inr fnames \<and> poi_list_of a = Inr poi_list \<and>
            arg_ws a = wsname \<and> arg_ss a = ssname \<longrightarrow>
            (\<exists>f. main rd alt_fnames a = ([ErrNoPOIs f], [], Inl (SystemExit 1))))"
proof -
  from load_files_empty[of gname fname fnames poi_list rd wsname ssname "[]", OF assms]
  obtain f where
    f: "f \<in> snd ` set fnames" "matching_vars poi_list (rd f wsname ssname) = []"
    and l: "load_files rd wsname ssname poi_list fnames [] = ([ErrNoPOIs f], Inl (SystemExit 1))"
    by blast
  from l have lp: "load_poi_data rd fnames wsname ssname poi_list = ([ErrNoPOIs f], Inl (SystemExit 1))"
    by (simp add: load_poi_data_def)
  have "\<exists>f. main rd alt_fnames a = ([ErrNoPOIs f], [], Inl (SystemExit 1))"
    if "get_fnames (arg_input a) alt_fnames = Inr fnames" "poi_list_of a = Inr poi_list"
       "arg_ws a = wsname" "arg_ss a = ssname" for alt_fnames a
    using that lp by (simp add: main_def)
  with f lp show ?thesis by blast
qed


lemma update_append_new: "k \<notin> fst ` set al \<Longrightarrow> AList.update k v al = al @ [(k, v)]"
  by (induction al) auto

lemma load_files_ok:
  assumes "distinct (map fst fnames)" and "fst ` set fnames \<inter> fst ` set tmp = {}"
    and "\<forall>(g, f) \<in> set fnames. matching_vars poi_list (rd f wsname ssname) \<noteq> []"
  shows "load_files rd wsname ssname poi_list fnames tmp =
           ([], Inr (tmp @ map (\<lambda>(g, f). (g, load_vars poi_list (rd f wsname ssname) [])) fnames))"
  using assms
proof (induction fnames arbitrary: tmp)
  case Nil
  then show ?case by simp
next
  case (Cons x rest)
  obtain g f where x: "x = (g, f)" by (cases x)
  let ?d = "load_vars poi_list (rd f wsname ssname) []"
  from Cons.prems x have ne: "?d \<noteq> []" and nin: "g \<notin> fst ` set tmp"
    and d: "distinct (map fst rest)" and gr: "g \<notin> fst ` set rest"
    and dj: "fst ` set rest \<inter> fst ` set tmp = {}"
    and ne': "\<forall>(g, f) \<in> set rest. matching_vars poi_list (rd f wsname ssname) \<noteq> []"
    by (auto simp: load_vars_empty_iff)
  have upd: "AList.update g ?d tmp = tmp @ [(g, ?d)]"
    using nin by (rule update_append_new)
  have dj': "fst ` set rest \<inter> fst ` set (tmp @ [(g, ?d)]) = {}"
    using dj gr by auto
  show ?case
    using ne x upd Cons.IH[OF d dj' ne'] by (simp add: Let_def)
qed

lemma restructure_groups_cases:
  "(\<exists>acc'. restructure_groups tmp pname gnames acc = Inr acc') \<or>
   (\<exists>k. restructure_groups tmp pname gnames acc = Inl (KeyError k))"
  by (induction gnames arbitrary: acc) (auto simp: dict_get_def split: option.splits)

lemma restructure_groups_ok:
  "\<forall>g \<in> set gnames. \<exists>d poi. map_of tmp g = Some d \<and> map_of d pname = Some poi \<Longrightarrow>
   \<exists>acc'. restructure_groups tmp pname gnames acc = Inr acc'"
  by (induction gnames arbitrary: acc) (auto simp: dict_get_def)

lemma restructure_groups_fail:
  "g \<in> set gnames \<Longrightarrow> \<not> (\<exists>d poi. map_of tmp g = Some d \<and> map_of d pname = Some poi) \<Longrightarrow>
   \<exists>k. restructure_groups tmp pname gnames acc = Inl (KeyError k)"
proof (induction gnames arbitrary: acc)
  case Nil
  then show ?case by simp
next
  case (Cons h gnames)
  show ?case
  proof (cases "\<exists>d poi. map_of tmp h = Some d \<and> map_of d pname = Some poi")
    case True
    with Cons.prems have "g \<in> set gnames" by auto
    with Cons.IH Cons.prems(2) True show ?thesis by (auto simp: dict_get_def)
  next
    case False
    then show ?thesis by (auto simp: dict_get_def split: option.splits)
  qed
qed

lemma restructure_ok:
  "\<forall>pname \<in> set pnames. \<forall>g \<in> set gnames.
      \<exists>d poi. map_of tmp g = Some d \<and> map_of d pname = Some poi \<Longrightarrow>
   \<exists>pd. restructure tmp gnames pnames acc = Inr pd"
proof (induction pnames arbitrary: acc)
  case Nil
  then show ?case by simp
next
  case (Cons pname pnames)
  from Cons.prems have "\<forall>g \<in> set gnames. \<exists>d poi. map_of tmp g = Some d \<and> map_of d pname = Some poi"
    by simp
  from restructure_groups_ok[OF this, of "[]"] obtain groups where
    "restructure_groups tmp pname gnames [] = Inr groups" by blast
  moreover from Cons.prems have "\<forall>pname \<in> set pnames. \<forall>g \<in> set gnames.
      \<exists>d poi. map_of tmp g = Some d \<and> map_of d pname = Some poi" by simp
  from Cons.IH[OF this] have "\<exists>pd. restructure tmp gnames pnames (AList.update pname groups acc) = Inr pd" .
  ultimately show ?case by simp
qed

lemma restructure_fail:
  "pname \<in> set pnames \<Longrightarrow> g \<in> set gnames \<Longrightarrow>
   \<not> (\<exists>d poi. map_of tmp g = Some d \<and> map_of d pname = Some poi) \<Longrightarrow>
   \<exists>k. restructure tmp gnames pnames acc = Inl (KeyError k)"
proof (induction pnames arbitrary: acc)
  case Nil
  then show ?case by simp
next
  case (Cons q pnames)
  from restructure_groups_cases[of tmp q gnames "[]"] show ?case
  proof
    assume "\<exists>acc'. restructure_groups tmp q gnames [] = Inr acc'"
    then obtain groups where ok: "restructure_groups tmp q gnames [] = Inr groups" by blast
    have "q \<noteq> pname"
    proof
      assume "q = pname"
      with restructure_groups_fail[OF Cons.prems(2,3), of "[]"] ok show False by simp
    qed
    with Cons.prems(1) have "pname \<in> set pnames" by auto
    from Cons.IH[OF this Cons.prems(2,3)] ok show ?thesis by simp
  next
    assume "\<exists>k. restructure_groups tmp q gnames [] = Inl (KeyError k)"
    then show ?thesis by auto
  qed
qed


lemma map_of_has_key: "(\<exists>v. map_of d k = Some v) \<longleftrightarrow> k \<in> fst ` set d"
  by (metis map_of_eq_None_iff not_None_eq)

text \<open>
  Claim C10, as amended. Let \<open>fnames\<close> have distinct keys and a \<open>Base\<close> file. If no file
  yields zero matching POIs and the POI names of some file do not include all the POI
  names of the baseline, \<open>load_poi_data\<close> raises \<open>KeyError\<close> in the restructuring step,
  with an empty log. If no file yields zero matching POIs and every file's names include
  the baseline's, it returns. And whenever it returns, every file's POI names include
  all the POI names of the baseline.
\<close>

theorem load_poi_data_missing_poi:
  assumes wf: "dict_wf fnames" and base: "map_of fnames ''Base'' = Some fbase"
  shows "((\<forall>(g, f) \<in> set fnames. matching_vars poi_list (rd f wsname ssname) \<noteq> []) \<and>
          (\<exists>(g, f) \<in> set fnames. \<not> poi_names rd wsname ssname poi_list fbase
                                      \<subseteq> poi_names rd wsname ssname poi_list f) \<longrightarrow>
          (\<exists>k. load_poi_data rd fnames wsname ssname poi_list = ([], Inl (KeyError k)))) \<and>
         ((\<forall>(g, f) \<in> set fnames. matching_vars poi_list (rd f wsname ssname) \<noteq> []) \<and>
          (\<forall>(g, f) \<in> set fnames. poi_names rd wsname ssname poi_list fbase
                                      \<subseteq> poi_names rd wsname ssname poi_list f) \<longrightarrow>
          (\<exists>pd. load_poi_data rd fnames wsname ssname poi_list = ([], Inr pd))) \<and>
         (\<forall>lg pd. load_poi_data rd fnames wsname ssname poi_list = (lg, Inr pd) \<longrightarrow>
            (\<forall>(g, f) \<in> set fnames. poi_names rd wsname ssname poi_list fbase
                                      \<subseteq> poi_names rd wsname ssname poi_list f))"
proof -
  define D where "D f = load_vars poi_list (rd f wsname ssname) []" for f
  define tmp where "tmp = map (\<lambda>(g, f). (g, D f)) fnames"
  define N where "N = poi_names rd wsname ssname poi_list"
  define nonempty where
    "nonempty = (\<forall>(g, f) \<in> set fnames. matching_vars poi_list (rd f wsname ssname) \<noteq> [])"
  define R where "R = restructure tmp (dict_keys fnames) (dict_keys (D fbase)) []"
  from wf have dist: "distinct (map fst fnames)" by (simp add: dict_wf_def)
  have keysD: "fst ` set (D f) = N f" for f
    by (simp add: D_def N_def poi_names_def load_vars_keys)
  have lookup: "map_of tmp g = Some (D f)" if "(g, f) \<in> set fnames" for g f
  proof -
    from dist that have "map_of fnames g = Some f" by (rule map_of_is_SomeI)
    moreover have "map_of tmp = map_option D \<circ> map_of fnames"
      unfolding tmp_def by (rule map_of_map)
    ultimately show ?thesis by simp
  qed
  have has_iff: "(\<exists>d poi. map_of tmp g = Some d \<and> map_of d pname = Some poi) \<longleftrightarrow> pname \<in> N f"
    if "(g, f) \<in> set fnames" for g f pname
    using lookup[OF that] map_of_has_key[of "D f" pname] keysD[of f] by simp
  from base have bin: "(''Base'', fbase) \<in> set fnames" by (rule map_of_SomeD)
  have run: "load_poi_data rd fnames wsname ssname poi_list = ([], R)" if nonempty
  proof -
    have "load_files rd wsname ssname poi_list fnames [] = ([], Inr tmp)"
      using load_files_ok[OF dist, of "[]" poi_list rd wsname ssname] that
      by (simp add: nonempty_def tmp_def D_def)
    then show ?thesis
      using lookup[OF bin] by (simp add: load_poi_data_def dict_get_def R_def)
  qed
  have fail: "\<exists>k. R = Inl (KeyError k)" if "(g, f) \<in> set fnames" "\<not> N fbase \<subseteq> N f" for g f
  proof -
    from that(2) obtain pname where "pname \<in> N fbase" "pname \<notin> N f" by blast
    then have p: "pname \<in> set (dict_keys (D fbase))"
      and nh: "\<not> (\<exists>d poi. map_of tmp g = Some d \<and> map_of d pname = Some poi)"
      using keysD[of fbase] has_iff[OF that(1)] by (simp_all add: dict_keys_def)
    from that(1) have "g \<in> set (dict_keys fnames)" by (force simp: dict_keys_def)
    from restructure_fail[OF p this nh] show ?thesis by (simp add: R_def)
  qed
  have ok: "\<exists>pd. R = Inr pd" if all: "\<forall>(g, f) \<in> set fnames. N fbase \<subseteq> N f"
  proof -
    have "\<forall>pname \<in> set (dict_keys (D fbase)). \<forall>g \<in> set (dict_keys fnames).
            \<exists>d poi. map_of tmp g = Some d \<and> map_of d pname = Some poi"
    proof (intro ballI)
      fix pname g assume p: "pname \<in> set (dict_keys (D fbase))" and g: "g \<in> set (dict_keys fnames)"
      from g obtain f where gf: "(g, f) \<in> set fnames" by (auto simp: dict_keys_def)
      from p have "pname \<in> N fbase" using keysD[of fbase] by (simp add: dict_keys_def)
      with all gf have "pname \<in> N f" by blast
      with has_iff[OF gf] show "\<exists>d poi. map_of tmp g = Some d \<and> map_of d pname = Some poi" by simp
    qed
    from restructure_ok[OF this] show ?thesis by (simp add: R_def)
  qed
  have A: "(\<exists>k. load_poi_data rd fnames wsname ssname poi_list = ([], Inl (KeyError k)))"
    if nonempty "\<exists>(g, f) \<in> set fnames. \<not> N fbase \<subseteq> N f"
    using run[OF that(1)] fail that(2) by auto
  have C: "\<exists>pd. load_poi_data rd fnames wsname ssname poi_list = ([], Inr pd)"
    if nonempty "\<forall>(g, f) \<in> set fnames. N fbase \<subseteq> N f"
    using run[OF that(1)] ok[OF that(2)] by auto
  have B: "\<forall>(g, f) \<in> set fnames. N fbase \<subseteq> N f"
    if r: "load_poi_data rd fnames wsname ssname poi_list = (lg, Inr pd)" for lg pd
  proof -
    have ne: nonempty
      unfolding nonempty_def
    proof (rule ccontr)
      assume "\<not> (\<forall>(g, f) \<in> set fnames. matching_vars poi_list (rd f wsname ssname) \<noteq> [])"
      then obtain g f where gf: "(g, f) \<in> set fnames"
        and e: "matching_vars poi_list (rd f wsname ssname) = []" by auto
      from load_files_empty[of g f fnames poi_list rd wsname ssname "[]", OF gf e] r
      show False by (auto simp: load_poi_data_def)
    qed
    show ?thesis
    proof (rule ccontr)
      assume "\<not> (\<forall>(g, f) \<in> set fnames. N fbase \<subseteq> N f)"
      then have "\<exists>(g, f) \<in> set fnames. \<not> N fbase \<subseteq> N f" by auto
      from A[OF ne this] r show False by auto
    qed
  qed
  from A B C show ?thesis
    unfolding N_def nonempty_def by blast
qed


lemma example_matching:
  "matching_vars [] (example_reader ''b.root'' w s) \<noteq> []"
  "matching_vars [] (example_reader ''b_g1.root'' w s) \<noteq> []"
  "matching_vars [] (example_reader ''b_g2.root'' w s) = []"
  by (simp_all add: matching_vars_def example_reader_def)

lemma example_names:
  "poi_names example_reader w s [] ''b.root'' = {''mu_a'', ''mu_b''}"
  "poi_names example_reader w s [] ''b_g1.root'' = {''mu_a''}"
  by (auto simp: poi_names_def matching_vars_def example_reader_def)

theorem load_poi_data_empty_container_aborts_witness:
  "(''g2'', ''b_g2.root'') \<in> set [(''Base'', ''b.root''), (''g1'', ''b_g1.root''), (''g2'', ''b_g2.root'')] \<and>
   matching_vars [] (example_reader ''b_g2.root'' ''w'' ''s'') = [] \<and>
   (\<exists>f. load_poi_data example_reader
           [(''Base'', ''b.root''), (''g1'', ''b_g1.root''), (''g2'', ''b_g2.root'')] ''w'' ''s'' []
         = ([ErrNoPOIs f], Inl (SystemExit 1))) \<and>
   (\<exists>f. main example_reader [''b_g1.root'', ''b_g2.root'']
           \<lparr>arg_input = ''b.root'', arg_ws = ''w'', arg_ss = ''s'', arg_poi = []\<rparr>
         = ([ErrNoPOIs f], [], Inl (SystemExit 1)))"
proof -
  let ?fnames = "[(''Base'', ''b.root''), (''g1'', ''b_g1.root''), (''g2'', ''b_g2.root'')]"
  let ?a = "\<lparr>arg_input = ''b.root'', arg_ws = ''w'', arg_ss = ''s'', arg_poi = []\<rparr>"
  have m: "(''g2'', ''b_g2.root'') \<in> set ?fnames" by simp
  have e: "matching_vars [] (example_reader ''b_g2.root'' ''w'' ''s'') = []"
    by (rule example_matching)
  have gf: "get_fnames (arg_input ?a) [''b_g1.root'', ''b_g2.root''] = Inr ?fnames"
    by code_simp
  have pl: "poi_list_of ?a = Inr []" by (simp add: poi_list_of_def)
  note t = load_poi_data_empty_container_aborts[where rd = example_reader and wsname = "''w''"
      and ssname = "''s''" and poi_list = "[]", OF m e]
  from t have l: "\<exists>f. load_poi_data example_reader ?fnames ''w'' ''s'' [] = ([ErrNoPOIs f], Inl (SystemExit 1))"
    by blast
  from t[THEN conjunct2, rule_format, of ?a "[''b_g1.root'', ''b_g2.root'']"] gf pl
  have r: "\<exists>f. main example_reader [''b_g1.root'', ''b_g2.root''] ?a = ([ErrNoPOIs f], [], Inl (SystemExit 1))"
    by simp
  show ?thesis by (intro conjI) (rule m, rule e, rule l, rule r)
qed

theorem load_poi_data_missing_poi_witness:
  "dict_wf [(''Base'', ''b.root''), (''g1'', ''b_g1.root'')] \<and>
   map_of [(''Base'', ''b.root''), (''g1'', ''b_g1.root'')] ''Base'' = Some ''b.root'' \<and>
   matching_vars [] (example_reader ''b.root'' ''w'' ''s'') \<noteq> [] \<and>
   matching_vars [] (example_reader ''b_g1.root'' ''w'' ''s'') \<noteq> [] \<and>
   \<not> poi_names example_reader ''w'' ''s'' [] ''b.root''
       \<subseteq> poi_names example_reader ''w'' ''s'' [] ''b_g1.root'' \<and>
   (\<exists>k. load_poi_data example_reader [(''Base'', ''b.root''), (''g1'', ''b_g1.root'')] ''w'' ''s'' []
         = ([], Inl (KeyError k)))"
proof -
  let ?fnames = "[(''Base'', ''b.root''), (''g1'', ''b_g1.root'')]"
  have wf: "dict_wf ?fnames" by (simp add: dict_wf_def)
  have b: "map_of ?fnames ''Base'' = Some ''b.root''" by simp
  note m = example_matching(1,2)[of "''w''" "''s''"]
  have ns: "\<not> poi_names example_reader ''w'' ''s'' [] ''b.root''
       \<subseteq> poi_names example_reader ''w'' ''s'' [] ''b_g1.root''"
    by (simp add: example_names)
  have h1: "\<forall>(g, f) \<in> set ?fnames. matching_vars [] (example_reader f ''w'' ''s'') \<noteq> []"
    using m by simp
  have h2: "\<exists>(g, f) \<in> set ?fnames. \<not> poi_names example_reader ''w'' ''s'' [] ''b.root''
                                      \<subseteq> poi_names example_reader ''w'' ''s'' [] f"
    using ns by simp
  from load_poi_data_missing_poi[OF wf b, of "[]" example_reader "''w''" "''s''", THEN conjunct1, rule_format, OF conjI[OF h1 h2]]
  have k: "\<exists>k. load_poi_data example_reader ?fnames ''w'' ''s'' [] = ([], Inl (KeyError k))" .
  show ?thesis by (intro conjI) (rule wf, rule b, rule m(1), rule m(2), rule ns, rule k)
qed

text \<open>
  The claim fails when another container is empty: \<open>b_g1.root\<close> yields the POI \<open>mu_a\<close>
  and lacks the baseline's \<open>mu_b\<close>, but \<open>b_g2.root\<close> yields no POI, and the run ends
  by the exit with code 1 of the loading loop, not by a \<open>KeyError\<close>.
\<close>

theorem load_poi_data_exit_before_key_error:
  "matching_vars [] (example_reader ''b_g1.root'' ''w'' ''s'') \<noteq> [] \<and>
   \<not> poi_names example_reader ''w'' ''s'' [] ''b.root''
       \<subseteq> poi_names example_reader ''w'' ''s'' [] ''b_g1.root'' \<and>
   load_poi_data example_reader
     [(''Base'', ''b.root''), (''g1'', ''b_g1.root''), (''g2'', ''b_g2.root'')] ''w'' ''s'' []
     = ([ErrNoPOIs ''b_g2.root''], Inl (SystemExit 1))"
proof -
  have l: "load_poi_data example_reader
     [(''Base'', ''b.root''), (''g1'', ''b_g1.root''), (''g2'', ''b_g2.root'')] ''w'' ''s'' []
     = ([ErrNoPOIs ''b_g2.root''], Inl (SystemExit 1))"
    by (simp add: load_poi_data_def example_reader_def Let_def)
  have ns: "\<not> poi_names example_reader ''w'' ''s'' [] ''b.root''
       \<subseteq> poi_names example_reader ''w'' ''s'' [] ''b_g1.root''"
    by (simp add: example_names)
  show ?thesis by (intro conjI) (rule example_matching, rule ns, rule l)
qed

end
